(* ===== verification/Prelude.thy ===== *)
theory Prelude
  imports Main "HOL-Library.Word" "HOL-Library.Monad_Syntax" "HOL-Library.Multiset"
begin

text \<open>
  Shared vocabulary of the development: the machine integer types of the Rust code, checked
  arithmetic whose failure is the panic of an overflow-checked build, the monotonic clock, the
  big-endian byte encodings of 16 and 32 bit words, and generic lemmas on the option monad.

  A Rust operation that can panic, or a loop that may not end, has an \<open>option\<close> result:
  \<open>None\<close> means that the call does not return. \<open>usize\<close> and \<open>u64\<close> values are \<open>nat\<close>: they count bytes,
  packets, milliseconds and nanoseconds and stay far below \<open>2 ^ 64\<close>; every subtraction on them is
  written with \<open>checked_sub\<close>, so an underflow is a branch of the model.
\<close>

unbundle bit_operations_syntax

type_synonym u8 = "8 word"
type_synonym u16 = "16 word"
type_synonym u32 = "32 word"
type_synonym bytes = "8 word list"

named_theorems codec \<open>equations of the byte encodings\<close>

subsection \<open>Arithmetic that panics\<close>

definition checked_sub :: "nat \<Rightarrow> nat \<Rightarrow> nat option" where
  "checked_sub a b = (if b \<le> a then Some (a - b) else None)"

definition checked_div :: "nat \<Rightarrow> nat \<Rightarrow> nat option" where
  "checked_div a b = (if b = 0 then None else Some (a div b))"

definition checked_add_u32 :: "u32 \<Rightarrow> u32 \<Rightarrow> u32 option" where
  "checked_add_u32 a b = (if unat a + unat b < 2 ^ 32 then Some (a + b) else None)"

definition checked_sub_u32 :: "u32 \<Rightarrow> u32 \<Rightarrow> u32 option" where
  "checked_sub_u32 a b = (if b \<le> a then Some (a - b) else None)"

lemma checked_sub_Some [simp]: "b \<le> a \<Longrightarrow> checked_sub a b = Some (a - b)"
  by (simp add: checked_sub_def)

lemma checked_sub_eq_Some_iff: "checked_sub a b = Some c \<longleftrightarrow> b \<le> a \<and> c = a - b"
  by (auto simp: checked_sub_def)

lemma checked_sub_None_iff [simp]: "checked_sub a b = None \<longleftrightarrow> a < b"
  by (auto simp: checked_sub_def)

lemma checked_div_Some [simp]: "0 < b \<Longrightarrow> checked_div a b = Some (a div b)"
  by (simp add: checked_div_def)

lemma checked_div_None_iff [simp]: "checked_div a b = None \<longleftrightarrow> b = 0"
  by (simp add: checked_div_def)

lemma checked_add_u32_eq_Some_iff:
  "checked_add_u32 a b = Some c \<longleftrightarrow> unat a + unat b < 2 ^ 32 \<and> c = a + b"
  by (auto simp: checked_add_u32_def)

lemma checked_sub_u32_eq_Some_iff: "checked_sub_u32 a b = Some c \<longleftrightarrow> b \<le> a \<and> c = a - b"
  by (auto simp: checked_sub_u32_def)

lemma unat_u32_less [simp]: "unat (w :: u32) < 4294967296"
  using unsigned_less [of w] by simp

text \<open>Indexing a vector or slice.\<close>

definition checked_nth :: "'a list \<Rightarrow> nat \<Rightarrow> 'a option" where
  "checked_nth xs i = (if i < length xs then Some (xs ! i) else None)"

lemma checked_nth_Some [simp]: "i < length xs \<Longrightarrow> checked_nth xs i = Some (xs ! i)"
  by (simp add: checked_nth_def)

lemma checked_nth_None_iff [simp]: "checked_nth xs i = None \<longleftrightarrow> length xs \<le> i"
  by (auto simp: checked_nth_def)

definition slice_from :: "nat \<Rightarrow> 'a list \<Rightarrow> 'a list option" where
  "slice_from n xs = (if n \<le> length xs then Some (drop n xs) else None)"

lemma slice_from_Some [simp]: "n \<le> length xs \<Longrightarrow> slice_from n xs = Some (drop n xs)"
  by (simp add: slice_from_def)

text \<open>\<open>as i32\<close> of an unsigned integer keeps the low 32 bits; \<open>%\<close> on \<open>i32\<close> takes the sign of the dividend.\<close>

definition as_i32 :: "nat \<Rightarrow> int" where
  "as_i32 n = sint (word_of_nat n :: u32)"

lemma as_i32_small:
  assumes "n < 2 ^ 31"
  shows "as_i32 n = int n"
proof -
  have "as_i32 n = signed_take_bit 31 (int n)"
    using signed_of_nat [where ?'a = int and ?'b = 32, of n] by (simp add: as_i32_def)
  also have "\<dots> = int n"
    using assms by (intro signed_take_bit_int_eq_self) simp_all
  finally show ?thesis .
qed

definition checked_rem_i32 :: "int \<Rightarrow> int \<Rightarrow> int option" where
  "checked_rem_i32 a b = (if b = 0 then None else Some (sgn a * (\<bar>a\<bar> mod \<bar>b\<bar>)))"

subsection \<open>The option monad\<close>

lemma bind_Some_iff: "Option.bind x f = Some y \<longleftrightarrow> (\<exists>a. x = Some a \<and> f a = Some y)"
  by (cases x) auto

lemma bind_total: "(\<exists>a. x = Some a) \<Longrightarrow> (\<And>a. x = Some a \<Longrightarrow> \<exists>y. f a = Some y) \<Longrightarrow> \<exists>y. Option.bind x f = Some y"
  by (cases x) auto

subsection \<open>The monotonic clock\<close>

text \<open>
  \<open>Instant::now()\<close> reads a clock the program does not control, and one operation may read it more
  than once. A \<open>clock\<close> is the stream of the readings still to come, in nanoseconds; an operation
  uses the first readings and returns the rest. \<open>Instant\<close> is documented to be monotonic, which is
  the hypothesis \<open>mono c\<close> where a theorem needs it. \<open>Instant\<close> differences and \<open>elapsed\<close> saturate at
  zero, as \<open>nat\<close> subtraction does.
\<close>

type_synonym instant = nat
type_synonym duration = nat
type_synonym clock = "nat \<Rightarrow> nat"

definition clock_skip :: "nat \<Rightarrow> clock \<Rightarrow> clock" where
  "clock_skip k c = (\<lambda>n. c (n + k))"

lemma clock_skip_apply [simp]: "clock_skip k c n = c (n + k)"
  by (simp add: clock_skip_def)

lemma clock_skip_0 [simp]: "clock_skip 0 c = c"
  by (simp add: clock_skip_def)

lemma clock_skip_skip [simp]: "clock_skip k (clock_skip l c) = clock_skip (k + l) c"
  by (simp add: clock_skip_def add.assoc)

lemma mono_clock_skip [intro]: "mono c \<Longrightarrow> mono (clock_skip k c)"
  by (auto simp: mono_def clock_skip_def)

definition from_millis :: "nat \<Rightarrow> duration" where
  "from_millis ms = ms * 1000000"

definition as_millis :: "duration \<Rightarrow> nat" where
  "as_millis d = d div 1000000"

subsection \<open>Big-endian bytes\<close>

definition u16_high :: "u16 \<Rightarrow> u8" where
  "u16_high w = ucast (drop_bit 8 w)"

definition u16_low :: "u16 \<Rightarrow> u8" where
  "u16_low w = ucast w"

definition u16_of_bytes :: "u8 \<Rightarrow> u8 \<Rightarrow> u16" where
  "u16_of_bytes a b = push_bit 8 (ucast a) OR ucast b"

definition u32_bytes :: "u32 \<Rightarrow> bytes" where
  "u32_bytes w = [ucast (drop_bit 24 w), ucast (drop_bit 16 w), ucast (drop_bit 8 w), ucast w]"

definition u32_of_bytes :: "u8 \<Rightarrow> u8 \<Rightarrow> u8 \<Rightarrow> u8 \<Rightarrow> u32" where
  "u32_of_bytes a b c d =
     push_bit 24 (ucast a) OR push_bit 16 (ucast b) OR push_bit 8 (ucast c) OR ucast d"

lemma u16_of_high_low [codec]: "u16_of_bytes (u16_high w) (u16_low w) = w"
  unfolding u16_of_bytes_def u16_high_def u16_low_def
  by (rule bit_word_eqI) (auto simp: bit_simps)

lemma u32_of_u32_bytes [codec]:
  "u32_of_bytes (ucast (drop_bit 24 w)) (ucast (drop_bit 16 w)) (ucast (drop_bit 8 w)) (ucast w) = w"
proof (rule bit_word_eqI)
  fix n assume "n < LENGTH(32)"
  then consider "n < 8" | "8 \<le> n" "n < 16" | "16 \<le> n" "n < 24" | "24 \<le> n" "n < 32"
    by fastforce
  then show "bit (u32_of_bytes (ucast (drop_bit 24 w)) (ucast (drop_bit 16 w))
      (ucast (drop_bit 8 w)) (ucast w)) n = bit w n"
    by cases (auto simp: u32_of_bytes_def bit_simps)
qed

lemma length_u32_bytes [simp]: "length (u32_bytes w) = 4"
  by (simp add: u32_bytes_def)

end
