(* ===== verification/F32.thy ===== *)
theory F32
  imports Complex_Main Prelude
begin

text \<open>
  The 32 bit floating point numbers of the language (\<open>f32\<close>, IEEE 754 binary32), as far as the
  source uses them: conversion from integers, division, multiplication, addition, subtraction,
  \<open>max\<close>, \<open>ceil\<close> and the saturating casts to integers. A finite value is the rational number it
  stands for; every operation computes the exact result and rounds it to nearest, ties to even, at
  24 bits of precision, with gradual underflow at exponent -149 and overflow at \<open>2 ^ 128\<close>. The two
  zeros are one value: the source never divides by a zero that can be negative.
\<close>

datatype f32 = NaN | PInf | NInf | Fin rat

subsection \<open>Rounding\<close>

definition round_half_even :: "rat \<Rightarrow> int" where
  "round_half_even r =
     (let f = \<lfloor>r\<rfloor>; d = r - of_int f
      in if d < 1 / 2 then f else if 1 / 2 < d then f + 1 else if even f then f else f + 1)"

function int_log2 :: "int \<Rightarrow> int" where
  "int_log2 n = (if n < 2 then 0 else 1 + int_log2 (n div 2))"
  by pat_completeness auto
termination
  by (relation "measure nat") auto

declare int_log2.simps [simp del]

definition ilog2 :: "rat \<Rightarrow> int" where
  "ilog2 x =
     (if 1 \<le> x then int_log2 \<lfloor>x\<rfloor> else - (1 + int_log2 (\<lceil>1 / x\<rceil> - 1)))"

definition f32_exponent :: "rat \<Rightarrow> int" where
  "f32_exponent x = max (ilog2 \<bar>x\<bar> - 23) (- 149)"

definition f32_round :: "rat \<Rightarrow> f32" where
  "f32_round x =
     (if x = 0 then Fin 0
      else let u = 2 powi f32_exponent x; y = of_int (round_half_even (x / u)) * u
           in if 2 ^ 128 \<le> y then PInf else if y \<le> - (2 ^ 128) then NInf else Fin y)"

subsection \<open>Operations\<close>

definition f32_of_nat :: "nat \<Rightarrow> f32" where
  "f32_of_nat n = f32_round (of_nat n)"

definition f32_signed_inf :: "bool \<Rightarrow> f32" where
  "f32_signed_inf positive = (if positive then PInf else NInf)"

fun f32_neg :: "f32 \<Rightarrow> f32" where
  "f32_neg NaN = NaN"
| "f32_neg PInf = NInf"
| "f32_neg NInf = PInf"
| "f32_neg (Fin x) = Fin (- x)"

fun f32_add :: "f32 \<Rightarrow> f32 \<Rightarrow> f32" where
  "f32_add (Fin x) (Fin y) = f32_round (x + y)"
| "f32_add NaN b = NaN"
| "f32_add a NaN = NaN"
| "f32_add PInf NInf = NaN"
| "f32_add NInf PInf = NaN"
| "f32_add PInf b = PInf"
| "f32_add NInf b = NInf"
| "f32_add a b = b"

definition f32_sub :: "f32 \<Rightarrow> f32 \<Rightarrow> f32" where
  "f32_sub a b = f32_add a (f32_neg b)"

fun f32_mul :: "f32 \<Rightarrow> f32 \<Rightarrow> f32" where
  "f32_mul (Fin x) (Fin y) = f32_round (x * y)"
| "f32_mul NaN b = NaN"
| "f32_mul a NaN = NaN"
| "f32_mul (Fin x) b = (if x = 0 then NaN else f32_signed_inf (0 < x \<longleftrightarrow> b = PInf))"
| "f32_mul a (Fin y) = (if y = 0 then NaN else f32_signed_inf (0 < y \<longleftrightarrow> a = PInf))"
| "f32_mul a b = f32_signed_inf (a = b)"

fun f32_div :: "f32 \<Rightarrow> f32 \<Rightarrow> f32" where
  "f32_div (Fin x) (Fin y) =
     (if y = 0 then (if x = 0 then NaN else f32_signed_inf (0 < x)) else f32_round (x / y))"
| "f32_div NaN b = NaN"
| "f32_div a NaN = NaN"
| "f32_div (Fin x) b = Fin 0"
| "f32_div a (Fin y) = f32_signed_inf (0 \<le> y \<longleftrightarrow> a = PInf)"
| "f32_div a b = NaN"

fun f32_max :: "f32 \<Rightarrow> f32 \<Rightarrow> f32" where
  "f32_max NaN b = b"
| "f32_max a NaN = a"
| "f32_max PInf b = PInf"
| "f32_max a PInf = PInf"
| "f32_max NInf b = b"
| "f32_max a NInf = a"
| "f32_max (Fin x) (Fin y) = Fin (max x y)"

fun f32_ceil :: "f32 \<Rightarrow> f32" where
  "f32_ceil (Fin x) = Fin (of_int \<lceil>x\<rceil>)"
| "f32_ceil a = a"

text \<open>
  \<open>as usize\<close>, \<open>as u32\<close>: truncation towards zero, saturating at \<open>0\<close> and at the greatest value of
  the target type, \<open>NaN\<close> to \<open>0\<close>. \<open>as i64\<close> is the signed cast.
\<close>

fun f32_to_nat :: "int \<Rightarrow> f32 \<Rightarrow> nat" where
  "f32_to_nat hi NaN = 0"
| "f32_to_nat hi NInf = 0"
| "f32_to_nat hi PInf = nat hi"
| "f32_to_nat hi (Fin x) = nat (min hi \<lfloor>x\<rfloor>)"

definition f32_to_usize :: "f32 \<Rightarrow> nat" where
  "f32_to_usize = f32_to_nat (2 ^ 64 - 1)"

definition f32_to_u32 :: "f32 \<Rightarrow> u32" where
  "f32_to_u32 f = word_of_nat (f32_to_nat (2 ^ 32 - 1) f)"

fun f32_to_i64 :: "f32 \<Rightarrow> int" where
  "f32_to_i64 NaN = 0"
| "f32_to_i64 NInf = - (2 ^ 63)"
| "f32_to_i64 PInf = 2 ^ 63 - 1"
| "f32_to_i64 (Fin x) =
     max (- (2 ^ 63)) (min (2 ^ 63 - 1) (if 0 \<le> x then \<lfloor>x\<rfloor> else \<lceil>x\<rceil>))"

subsection \<open>Rounding to an integer\<close>

lemma round_half_even_of_int [simp]: "round_half_even (of_int k) = k"
  by (simp add: round_half_even_def)

lemma round_half_even_error: "\<bar>of_int (round_half_even r) - r\<bar> \<le> 1 / 2"
proof -
  have "of_int \<lfloor>r\<rfloor> \<le> r" "r < of_int \<lfloor>r\<rfloor> + 1"
    by linarith+
  then show ?thesis
    unfolding round_half_even_def Let_def by auto
qed

lemma round_half_even_nonneg: "0 \<le> r \<Longrightarrow> 0 \<le> round_half_even r"
  unfolding round_half_even_def Let_def by auto

lemma round_half_even_nonpos:
  assumes "r \<le> 0"
  shows "round_half_even r \<le> 0"
proof (rule ccontr)
  assume "\<not> round_half_even r \<le> 0"
  then have "(1::rat) \<le> of_int (round_half_even r)"
    by simp
  with round_half_even_error [of r] assms show False
    by linarith
qed

subsection \<open>The binary logarithm\<close>

lemma int_log2_bounds:
  assumes "1 \<le> n"
  shows "0 \<le> int_log2 n \<and> 2 ^ nat (int_log2 n) \<le> n \<and> n + 1 \<le> 2 ^ nat (int_log2 n + 1)"
  using assms
proof (induction n rule: int_log2.induct)
  case (1 n)
  show ?case
  proof (cases "n < 2")
    case True
    with "1.prems" show ?thesis by (simp add: int_log2.simps [of n])
  next
    case False
    then have IH: "0 \<le> int_log2 (n div 2) \<and> 2 ^ nat (int_log2 (n div 2)) \<le> n div 2 \<and>
        n div 2 + 1 \<le> 2 ^ nat (int_log2 (n div 2) + 1)"
      by (intro "1.IH") auto
    from False have l: "int_log2 n = int_log2 (n div 2) + 1"
      by (simp add: int_log2.simps [of n])
    have p: "2 ^ nat (int_log2 (n div 2) + 1) = 2 * (2::int) ^ nat (int_log2 (n div 2))"
      "2 ^ nat (int_log2 (n div 2) + 1 + 1) = 2 * (2::int) ^ nat (int_log2 (n div 2) + 1)"
      using IH by (simp_all add: nat_add_distrib)
    show ?thesis unfolding l p using IH p(1) by linarith
  qed
qed

lemma int_log2_bounds_rat:
  assumes "1 \<le> n"
  shows "2 powi (int_log2 n) \<le> (of_int n :: rat)" "of_int n + 1 \<le> (2::rat) powi (int_log2 n + 1)"
proof -
  note b = int_log2_bounds [OF assms]
  have "(of_int (2 ^ nat (int_log2 n)) :: rat) \<le> of_int n"
    using b by (intro of_int_le_iff [THEN iffD2]) simp
  then show "2 powi (int_log2 n) \<le> (of_int n :: rat)"
    using b by (simp add: power_int_def)
  have "(of_int (n + 1) :: rat) \<le> of_int (2 ^ nat (int_log2 n + 1))"
    using b by (intro of_int_le_iff [THEN iffD2]) simp
  then show "of_int n + 1 \<le> (2::rat) powi (int_log2 n + 1)"
    using b by (simp add: power_int_def)
qed

lemma ilog2_bounds_ge_1:
  assumes "1 \<le> x"
  shows "2 powi (ilog2 x) \<le> x" "x < 2 powi (ilog2 x + 1)"
proof -
  have n: "1 \<le> \<lfloor>x\<rfloor>" "of_int \<lfloor>x\<rfloor> \<le> x" "x < of_int \<lfloor>x\<rfloor> + 1"
    using assms by (simp add: le_floor_iff) linarith+
  have i: "ilog2 x = int_log2 \<lfloor>x\<rfloor>"
    using assms by (simp add: ilog2_def)
  note b = int_log2_bounds_rat [OF n(1)]
  show "2 powi (ilog2 x) \<le> x"
    unfolding i using b(1) n(2) by (rule order_trans)
  show "x < 2 powi (ilog2 x + 1)"
    unfolding i using n(3) b(2) by (rule less_le_trans)
qed

lemma ilog2_bounds_lt_1:
  assumes "0 < x" "x < 1"
  shows "2 powi (ilog2 x) \<le> x" "x < 2 powi (ilog2 x + 1)"
proof -
  let ?y = "1 / x" let ?n = "\<lceil>?y\<rceil> - 1"
  have y: "1 < ?y" using assms by (simp add: field_simps)
  then have n: "1 \<le> ?n" "of_int ?n < ?y" "?y \<le> of_int ?n + 1"
    by linarith+
  note b = int_log2_bounds_rat [OF n(1)]
  have i: "ilog2 x = - (int_log2 ?n + 1)" "ilog2 x + 1 = - int_log2 ?n"
    using assms by (simp_all add: ilog2_def)
  have "?y \<le> 2 powi (int_log2 ?n + 1)" using n(3) b(2) by (rule order_trans)
  then show "2 powi (ilog2 x) \<le> x"
    unfolding i(1) power_int_minus using le_imp_inverse_le [of ?y] assms by simp
  have "2 powi (int_log2 ?n) < ?y" using b(1) n(2) by (rule le_less_trans)
  then show "x < 2 powi (ilog2 x + 1)"
    unfolding i(2) power_int_minus using less_imp_inverse_less [of "2 powi (int_log2 ?n)" ?y] assms by simp
qed

lemma ilog2_bounds:
  assumes "0 < x"
  shows "2 powi (ilog2 x) \<le> x" "x < 2 powi (ilog2 x + 1)"
  using assms ilog2_bounds_ge_1 [of x] ilog2_bounds_lt_1 [of x] by (cases "1 \<le> x"; simp)+


subsection \<open>Error of the rounding\<close>

text \<open>
  The rounding error is half a unit in the last place: at most \<open>2 ^ -24\<close> of the value, plus half the
  least subnormal. Every finite result is within this distance of the exact one.
\<close>

lemma powi_exponent_le:
  assumes "x \<noteq> 0"
  shows "2 powi f32_exponent x \<le> \<bar>x\<bar> / 2 ^ 23 + 1 / 2 ^ 149"
proof (cases "ilog2 \<bar>x\<bar> - 23 \<le> - 149")
  case True
  then have "2 powi f32_exponent x = (1::rat) / 2 ^ 149"
    by (simp add: f32_exponent_def max_def power_int_minus field_simps)
  then show ?thesis by simp
next
  case False
  then have "2 powi f32_exponent x = (2::rat) powi (ilog2 \<bar>x\<bar>) / 2 ^ 23"
    by (simp add: f32_exponent_def max_def power_int_diff)
  also have "\<dots> \<le> \<bar>x\<bar> / 2 ^ 23"
    using ilog2_bounds(1) [of "\<bar>x\<bar>"] assms by (simp add: divide_right_mono)
  also have "\<dots> \<le> \<bar>x\<bar> / 2 ^ 23 + 1 / 2 ^ 149" by simp
  finally show ?thesis .
qed

lemma rounded_error:
  assumes "x \<noteq> 0"
  shows "\<bar>of_int (round_half_even (x / 2 powi f32_exponent x)) * 2 powi f32_exponent x - x\<bar>
    \<le> \<bar>x\<bar> / 2 ^ 24 + 1 / 2 ^ 150"
proof -
  let ?u = "2 powi f32_exponent x :: rat" let ?r = "of_int (round_half_even (x / ?u)) :: rat"
  have u: "0 < ?u" by simp
  have "\<bar>?r * ?u - x\<bar> = \<bar>?r - x / ?u\<bar> * ?u"
    using u by (simp add: abs_mult_pos left_diff_distrib)
  also have "\<dots> \<le> 1 / 2 * ?u"
    using round_half_even_error [of "x / ?u"] u by (intro mult_right_mono) auto
  also have "\<dots> \<le> 1 / 2 * (\<bar>x\<bar> / 2 ^ 23 + 1 / 2 ^ 149)"
    using powi_exponent_le [OF assms] by (intro mult_left_mono) auto
  also have "\<dots> = \<bar>x\<bar> / 2 ^ 24 + 1 / 2 ^ 150" by simp
  finally show ?thesis .
qed

lemma f32_round_error:
  assumes "f32_round x = Fin y"
  shows "\<bar>y - x\<bar> \<le> \<bar>x\<bar> / 2 ^ 24 + 1 / 2 ^ 150"
  using assms rounded_error [of x] by (auto simp: f32_round_def Let_def split: if_splits)

lemma f32_round_le:
  assumes "f32_round x = Fin y" "0 \<le> x"
  shows "y \<le> x * (1 + 1 / 2 ^ 24) + 1 / 2 ^ 150"
proof -
  have "y - x \<le> x / 2 ^ 24 + 1 / 2 ^ 150"
    using f32_round_error [OF assms(1)] assms(2) by (simp only: abs_of_nonneg abs_le_iff)
  then show ?thesis by (simp add: algebra_simps)
qed

lemma f32_round_ge:
  assumes "f32_round x = Fin y" "0 \<le> x"
  shows "x * (1 - 1 / 2 ^ 24) - 1 / 2 ^ 150 \<le> y"
proof -
  have "- (y - x) \<le> x / 2 ^ 24 + 1 / 2 ^ 150"
    using f32_round_error [OF assms(1)] assms(2) by (simp only: abs_of_nonneg abs_le_iff)
  then show ?thesis by (simp add: algebra_simps)
qed

lemma f32_round_finite:
  assumes "\<bar>x\<bar> \<le> 2 ^ 127"
  shows "\<exists>y. f32_round x = Fin y"
proof (cases "x = 0")
  case False
  define y :: rat where "y = of_int (round_half_even (x / 2 powi f32_exponent x)) * 2 powi f32_exponent x"
  have "\<bar>y - x\<bar> \<le> \<bar>x\<bar> / 2 ^ 24 + 1 / 2 ^ 150"
    using rounded_error [OF False] by (simp add: y_def)
  also have "\<dots> \<le> 2 ^ 126"
    using assms by (simp add: field_simps)
  finally have "\<bar>y\<bar> < 2 ^ 128"
    using assms by (simp add: abs_if split: if_splits)
  then show ?thesis
    using False by (auto simp: f32_round_def Let_def abs_less_iff simp flip: y_def)
qed (simp add: f32_round_def)

text \<open>In the range of normal numbers the result is exact up to a factor close to one.\<close>

lemma f32_round_rel:
  assumes "1 / 2 ^ 100 \<le> x" "x \<le> 2 ^ 100"
  obtains d where "f32_round x = Fin (x * d)" "1 - 1 / 2 ^ 20 \<le> d" "d \<le> 1 + 1 / 2 ^ 20"
proof -
  have x: "0 < x" using assms(1) by (rule order_less_le_trans [rotated]) simp
  obtain y where y: "f32_round x = Fin y"
    using f32_round_finite [of x] x assms(2) by fastforce
  have e: "1 / 2 ^ 150 \<le> x / 2 ^ 24"
    using assms(1) by (simp add: field_simps)
  have "y / x \<le> 1 + 1 / 2 ^ 20"
    using f32_round_le [OF y] x e by (simp add: field_simps)
  moreover have "1 - 1 / 2 ^ 20 \<le> y / x"
    using f32_round_ge [OF y] x e by (simp add: field_simps)
  ultimately show thesis using y x that [of "y / x"] by simp
qed

lemma f32_round_nonneg:
  assumes "0 \<le> x" "f32_round x = Fin y"
  shows "0 \<le> y"
  using assms round_half_even_nonneg [of "x / 2 powi f32_exponent x"]
  by (auto simp: f32_round_def Let_def split: if_splits)

lemma f32_round_nonpos:
  assumes "x \<le> 0" "f32_round x = Fin y"
  shows "y \<le> 0"
  using assms round_half_even_nonpos [of "x / 2 powi f32_exponent x"]
  by (auto simp: f32_round_def Let_def divide_nonpos_nonneg mult_nonpos_nonneg split: if_splits)

lemma f32_round_0 [simp]: "f32_round 0 = Fin 0"
  by (simp add: f32_round_def)

text \<open>Everything but the negative numbers and minus infinity; \<open>NaN\<close> included.\<close>

definition f32_nonneg :: "f32 \<Rightarrow> bool" where
  "f32_nonneg f \<longleftrightarrow> (case f of Fin x \<Rightarrow> 0 \<le> x | NInf \<Rightarrow> False | _ \<Rightarrow> True)"

lemma f32_nonneg_simps [simp]:
  "f32_nonneg (Fin x) \<longleftrightarrow> 0 \<le> x" "f32_nonneg NaN" "f32_nonneg PInf" "\<not> f32_nonneg NInf"
  by (simp_all add: f32_nonneg_def)

lemma f32_nonneg_round: "0 \<le> x \<Longrightarrow> f32_nonneg (f32_round x)"
proof -
  assume x: "0 \<le> x"
  have "0 \<le> (of_int (round_half_even (x / 2 powi f32_exponent x)) * 2 powi f32_exponent x :: rat)"
    using x round_half_even_nonneg [of "x / 2 powi f32_exponent x"] by simp
  moreover from this have "\<not> of_int (round_half_even (x / 2 powi f32_exponent x)) * 2 powi f32_exponent x
      \<le> (- (2 ^ 128) :: rat)"
    by (meson neg_less_0_iff_less not_le order_trans zero_less_numeral zero_less_power)
  ultimately show ?thesis using x by (simp add: f32_round_def Let_def)
qed

lemma f32_nonneg_of_nat [simp]: "f32_nonneg (f32_of_nat n)"
  by (simp add: f32_of_nat_def f32_nonneg_round)

lemma f32_nonneg_mul: "f32_nonneg a \<Longrightarrow> f32_nonneg b \<Longrightarrow> f32_nonneg (f32_mul a b)"
  by (cases a; cases b) (auto simp: f32_nonneg_round f32_signed_inf_def)

lemma f32_nonneg_to_i64: "f32_nonneg f \<Longrightarrow> 0 \<le> f32_to_i64 f"
  by (cases f) auto



subsection \<open>Integers of at most 24 bits are exact\<close>

lemma f32_round_exact:
  assumes "x / 2 powi f32_exponent x = of_int k" "\<bar>x\<bar> < 2 ^ 128"
  shows "f32_round x = Fin x"
proof (cases "x = 0")
  case False
  have "of_int (round_half_even (x / 2 powi f32_exponent x)) * 2 powi f32_exponent x = x"
    unfolding assms(1) round_half_even_of_int using assms(1) by (simp add: field_simps)
  with False assms(2) show ?thesis
    by (auto simp: f32_round_def Let_def abs_less_iff)
qed simp

lemma f32_exponent_le_0:
  assumes "x \<noteq> 0" "\<bar>x\<bar> < 2 ^ 24"
  shows "f32_exponent x \<le> 0"
proof -
  have "2 powi (ilog2 \<bar>x\<bar>) < (2::rat) powi 24"
    using ilog2_bounds(1) [of "\<bar>x\<bar>"] assms by simp
  then have "ilog2 \<bar>x\<bar> < 24"
    using power_int_increasing [of 24 "ilog2 \<bar>x\<bar>" "2::rat"] by (meson not_le one_le_numeral zero_neq_numeral)
  then show ?thesis by (simp add: f32_exponent_def)
qed

lemma f32_round_of_int:
  assumes "\<bar>n\<bar> < 2 ^ 24"
  shows "f32_round (of_int n) = Fin (of_int n)"
proof (cases "n = 0")
  case False
  have a: "\<bar>of_int n\<bar> < (2 ^ 24 :: rat)"
    using assms by (metis of_int_abs of_int_less_iff of_int_numeral of_int_power)
  define e where "e = f32_exponent (of_int n)"
  have e: "e \<le> 0"
    unfolding e_def using False a by (intro f32_exponent_le_0) auto
  have "of_int n / 2 powi e = of_int n * (2::rat) powi (- e)"
    by (simp add: power_int_minus field_simps)
  also have "\<dots> = of_int (n * 2 ^ nat (- e))"
    using e by (simp add: power_int_def)
  finally show ?thesis
    unfolding e_def by (rule f32_round_exact) (use a in simp)
qed simp

lemma f32_round_numeral [simp]:
  "(numeral k :: int) < 2 ^ 24 \<Longrightarrow> f32_round (numeral k) = Fin (numeral k)"
  using f32_round_of_int [of "numeral k"] by simp

lemma f32_round_1 [simp]: "f32_round 1 = Fin 1"
  using f32_round_of_int [of 1] by simp

lemma f32_of_nat_small: "n < 2 ^ 24 \<Longrightarrow> f32_of_nat n = Fin (of_nat n)"
  using f32_round_of_int [of "int n"] by (simp add: f32_of_nat_def)

end
