(* ===== verification/Config.thy ===== *)
theory Config
  imports F32
begin

text \<open>
  The configuration record of \<open>src/shared/config.rs\<close> with its default values. Durations are in
  nanoseconds, the quotas and the recovery rate are 32 bit floats.
\<close>

record config =
  send_rate :: nat
  packet_max_size :: nat
  protocol_header :: "u8 \<times> u8 \<times> u8 \<times> u8"
  packet_drop_threshold :: duration
  connection_init_threshold :: duration
  connection_drop_threshold :: duration
  connection_closing_threshold :: duration
  message_quota_instant :: f32
  message_quota_reliable :: f32
  message_quota_ordered :: f32
  tick_overflow_recovery :: bool
  tick_overflow_recovery_rate :: f32

definition default_config :: config where
  "default_config =
     \<lparr>send_rate = 30,
      packet_max_size = 1400,
      protocol_header = (1, 2, 3, 4),
      packet_drop_threshold = from_millis 1000,
      connection_init_threshold = from_millis 100,
      connection_drop_threshold = from_millis 1000,
      connection_closing_threshold = from_millis 150,
      message_quota_instant = Fin 60,
      message_quota_reliable = Fin 20,
      message_quota_ordered = Fin 20,
      tick_overflow_recovery = True,
      tick_overflow_recovery_rate = Fin 1\<rparr>"

text \<open>The four bytes that \<open>config.protocol_header\<close> denotes as a slice.\<close>

fun header_bytes :: "u8 \<times> u8 \<times> u8 \<times> u8 \<Rightarrow> bytes" where
  "header_bytes (a, b, c, d) = [a, b, c, d]"

lemma length_header_bytes [simp]: "length (header_bytes h) = 4"
  by (cases h) simp

lemma default_config_simps [simp]:
  "send_rate default_config = 30" "packet_max_size default_config = 1400"
  "protocol_header default_config = (1, 2, 3, 4)"
  "packet_drop_threshold default_config = 1000000000"
  "connection_init_threshold default_config = 100000000"
  "connection_drop_threshold default_config = 1000000000"
  "connection_closing_threshold default_config = 150000000"
  "message_quota_instant default_config = Fin 60"
  "message_quota_reliable default_config = Fin 20"
  "message_quota_ordered default_config = Fin 20"
  "tick_overflow_recovery default_config" "tick_overflow_recovery_rate default_config = Fin 1"
  by (simp_all add: default_config_def from_millis_def)

end
