(* ===== verification/Serial.thy ===== *)
theory Serial
  imports Prelude
begin

text \<open>
  Comparison of wrapping counters. Packets carry a sequence number below 256, ordered messages an
  order id below 4096, and \<open>connection.rs\<close> and \<open>message_queue.rs\<close> each have their own "is more
  recent" test. The locale states the contract both keep; what follows from it is proved once, and
  each of the two theories interprets the locale on its own function.
\<close>

locale serial_order =
  fixes num :: "'w \<Rightarrow> nat"
    and modulus :: nat
    and more_recent :: "'w \<Rightarrow> 'w \<Rightarrow> bool"
  assumes modulus_even: "even modulus"
    and modulus_pos: "0 < modulus"
    and num_inject: "num a = num b \<Longrightarrow> a = b"
    and more_recent_iff:
      "num a < modulus \<Longrightarrow> num b < modulus \<Longrightarrow>
       more_recent a b \<longleftrightarrow>
         num b < num a \<and> num a - num b \<le> modulus div 2 \<or>
         num a < num b \<and> modulus div 2 < num b - num a"
begin

lemma irreflexive: "num a < modulus \<Longrightarrow> \<not> more_recent a a"
  by (simp add: more_recent_iff)

lemma exactly_one:
  assumes "num a < modulus" "num b < modulus" "a \<noteq> b"
  shows "more_recent a b \<longleftrightarrow> \<not> more_recent b a"
proof -
  from assms num_inject have "num a \<noteq> num b" by blast
  with assms show ?thesis by (auto simp: more_recent_iff)
qed

text \<open>
  Against unbounded counters: with at most half the modulus between them, the test on the wrapped
  values orders them as the counters themselves are ordered.
\<close>

lemma wrapped_newer:
  assumes "num a = x mod modulus" "num b = y mod modulus" "y < x" "x < y + modulus div 2"
  shows "more_recent a b"
proof -
  have m: "num a < modulus" "num b < modulus"
    using assms modulus_pos by simp_all
  obtain d where d: "x = y + d" "0 < d" "d < modulus div 2"
    using assms(3,4) by (metis add_diff_inverse_nat nat_add_left_cancel_less not_less_iff_gr_or_eq zero_less_diff)
  show ?thesis
  proof (cases "num b + d < modulus")
    case True
    then have "num a = num b + d"
      using assms(1,2) d(1) modulus_pos by (simp add: mod_add_left_eq [symmetric, of y])
    with d m show ?thesis by (simp add: more_recent_iff)
  next
    case False
    have "num a = (num b + d) mod modulus"
      using assms(1,2) d(1) by (simp add: mod_add_left_eq)
    also have "\<dots> = num b + d - modulus"
      using False d(3) m(2) by (simp add: mod_if)
    finally have "num a = num b + d - modulus" .
    with False d m modulus_even show ?thesis
      by (auto simp: more_recent_iff elim!: evenE)
  qed
qed

lemma wrapped_older:
  assumes "num a = x mod modulus" "num b = y mod modulus" "x \<le> y" "y < x + modulus div 2"
  shows "\<not> more_recent a b"
proof (cases "x = y")
  case True
  then have "a = b" using assms num_inject by simp
  with assms modulus_pos irreflexive show ?thesis by simp
next
  case False
  have "more_recent b a"
    by (rule wrapped_newer [OF assms(2,1)]) (use False assms in auto)
  then show ?thesis
    using exactly_one [of a b] irreflexive [of b] assms modulus_pos by (cases "a = b") auto
qed

end

end
