(* ===== verification/Message.thy ===== *)
theory Message
  imports Prelude
begin

text \<open>
  The messages of \<open>src/shared/message_queue.rs\<close> and their wire format: a four byte header (kind and
  upper order bits, lower order byte, big-endian size) followed by the payload. The parser walks the
  packet by index as the code does; \<open>parse\<close> is the reference on the remaining bytes, and the two agree.
\<close>

datatype message_kind = Instant | Reliable | Ordered

record message =
  m_kind :: message_kind
  m_order :: u16
  m_size :: u16
  m_data :: bytes

definition MESSAGE_HEADER_BYTES :: nat where
  "MESSAGE_HEADER_BYTES = 4"

subsection \<open>Serialising\<close>

text \<open>The discriminants \<open>Instant = 0\<close>, \<open>Reliable = 1\<close>, \<open>Ordered = 2\<close>.\<close>

fun kind_code :: "message_kind \<Rightarrow> u8" where
  "kind_code Instant = 0"
| "kind_code Reliable = 1"
| "kind_code Ordered = 2"

definition header_byte0 :: "u16 \<Rightarrow> message_kind \<Rightarrow> u8" where
  "header_byte0 order kind = ucast (drop_bit 4 (order AND 0x0F00)) OR kind_code kind"

definition message_header :: "message \<Rightarrow> bytes" where
  "message_header m =
     [header_byte0 (m_order m) (m_kind m),
      ucast (m_order m),
      ucast (drop_bit 8 (m_size m)),
      ucast (m_size m)]"

definition serialize :: "message \<Rightarrow> bytes" where
  "serialize m = message_header m @ m_data m"

subsection \<open>Parsing\<close>

definition kind_of_nibble :: "u8 \<Rightarrow> message_kind option" where
  "kind_of_nibble b =
     (if b = 0 then Some Instant else if b = 1 then Some Reliable else if b = 2 then Some Ordered
      else None)"

definition header_order :: "u8 \<Rightarrow> u8 \<Rightarrow> u16" where
  "header_order b0 b1 = push_bit 4 (ucast (b0 AND 0xF0)) OR ucast b1"

definition header_size :: "u8 \<Rightarrow> u8 \<Rightarrow> u16" where
  "header_size b2 b3 = push_bit 8 (ucast b2) OR ucast b3"

function messages_loop :: "bytes \<Rightarrow> nat \<Rightarrow> message list \<Rightarrow> message list" where
  "messages_loop packet index messages =
     (if index < length packet \<and> MESSAGE_HEADER_BYTES \<le> length packet - index then
        let order = header_order (packet ! index) (packet ! (index + 1));
            size = header_size (packet ! (index + 2)) (packet ! (index + 3));
            start = index + MESSAGE_HEADER_BYTES;
            stop = min (index + MESSAGE_HEADER_BYTES + unat size) (length packet);
            messages' =
              (case kind_of_nibble (packet ! index AND 0x0F) of
                 Some kind \<Rightarrow>
                   messages @ [\<lparr>m_kind = kind, m_order = order, m_size = size,
                                m_data = take (stop - start) (drop start packet)\<rparr>]
               | None \<Rightarrow> messages)
        in messages_loop packet (index + (unat size + MESSAGE_HEADER_BYTES)) messages'
      else messages)"
  by pat_completeness auto
termination
  by (relation "measure (\<lambda>(packet, index, messages). length packet - index)")
    (auto simp: MESSAGE_HEADER_BYTES_def)

declare messages_loop.simps [simp del]

definition messages_from_packet :: "bytes \<Rightarrow> message list" where
  "messages_from_packet packet = messages_loop packet 0 []"

subsection \<open>The reference parser\<close>

fun parse :: "bytes \<Rightarrow> message list" where
  "parse (b0 # b1 # b2 # b3 # rest) =
     (let size = header_size b2 b3
      in (case kind_of_nibble (b0 AND 0x0F) of
            Some kind \<Rightarrow>
              [\<lparr>m_kind = kind, m_order = header_order b0 b1, m_size = size,
                m_data = take (unat size) rest\<rparr>]
          | None \<Rightarrow> [])
         @ parse (drop (unat size) rest))"
| "parse _ = []"

lemma parse_short: "length bs < 4 \<Longrightarrow> parse bs = []"
  by (cases bs rule: parse.cases) auto

lemma messages_loop_parse: "messages_loop packet index messages = messages @ parse (drop index packet)"
proof (induction packet index messages rule: messages_loop.induct)
  case (1 packet index messages)
  show ?case
  proof (cases "index < length packet \<and> MESSAGE_HEADER_BYTES \<le> length packet - index")
    case False
    then have "length (drop index packet) < 4"
      by (auto simp: MESSAGE_HEADER_BYTES_def)
    then have "parse (drop index packet) = []" by (rule parse_short)
    with False show ?thesis by (subst messages_loop.simps) auto
  next
    case True
    then have len: "index + 3 < length packet" by (auto simp: MESSAGE_HEADER_BYTES_def)
    let ?b = "\<lambda>i. packet ! (index + i)" let ?rest = "drop (index + 4) packet"
    have split: "drop index packet = ?b 0 # ?b 1 # ?b 2 # ?b 3 # ?rest"
      using len by (simp add: Cons_nth_drop_Suc numeral_eq_Suc)
    let ?s = "unat (header_size (?b 2) (?b 3))"
    have data: "take (min (index + 4 + ?s) (length packet) - (index + 4)) ?rest = take ?s ?rest"
      by (cases "index + 4 + ?s \<le> length packet") auto
    have next_index: "drop ?s ?rest = drop (index + (?s + 4)) packet"
      by (simp add: ac_simps)
    note IH = "1.IH" [OF True refl refl refl refl refl]
    show ?thesis
      unfolding messages_loop.simps [of packet index messages] Let_def
      using True len IH data
      by (simp add: split MESSAGE_HEADER_BYTES_def Let_def next_index add.commute add.left_commute
          split: option.splits)
  qed
qed

lemma messages_from_packet_parse: "messages_from_packet packet = parse packet"
  by (simp add: messages_from_packet_def messages_loop_parse)


subsection \<open>Round trip\<close>

text \<open>
  A message survives the wire when its order id fits the 12 bits of the header and its size field
  is the length of its payload. \<open>MessageQueue::send\<close> builds such messages from payloads below 64 KiB.
\<close>

definition wf_message :: "message \<Rightarrow> bool" where
  "wf_message m \<longleftrightarrow> unat (m_order m) < 4096 \<and> unat (m_size m) = length (m_data m)"

lemma header_masks:
  "(0x0F00::u16) = push_bit 8 (mask 4)" "(0xF0::u8) = push_bit 4 (mask 4)" "(0x0F::u8) = mask 4"
  by (simp_all add: mask_eq_exp_minus_1 push_bit_eq_mult)

lemma kind_code_bit: "bit (kind_code k) n \<Longrightarrow> n < 2"
proof -
  have "take_bit 2 (kind_code k) = kind_code k"
    by (cases k) (simp_all add: take_bit_eq_mod)
  then show "bit (kind_code k) n \<Longrightarrow> n < 2"
    by (metis bit_take_bit_iff)
qed

lemma order_bit:
  assumes "bit (w::u16) n" "unat w < 4096"
  shows "n < 12"
proof (rule ccontr)
  assume "\<not> n < 12"
  then have "(2::nat) ^ 12 \<le> 2 ^ n" by (intro power_increasing) auto
  moreover have "odd (unat w div 2 ^ n)"
    using assms(1) by (simp add: bit_unsigned_iff flip: bit_iff_odd)
  ultimately show False using assms(2) by simp
qed

lemma header_kind [codec]: "kind_of_nibble (header_byte0 w k AND 0x0F) = Some k"
proof -
  have "header_byte0 w k AND 0x0F = kind_code k"
    unfolding header_byte0_def header_masks
    by (rule bit_word_eqI) (auto simp: bit_simps dest: kind_code_bit)
  then show ?thesis by (cases k) (simp_all add: kind_of_nibble_def)
qed

lemma header_order_roundtrip [codec]:
  "unat w < 4096 \<Longrightarrow> header_order (header_byte0 w k) (ucast w) = w"
  unfolding header_order_def header_byte0_def header_masks
  by (rule bit_word_eqI) (auto simp: bit_simps dest: kind_code_bit order_bit)

lemma header_size_roundtrip [codec]: "header_size (ucast (drop_bit 8 w)) (ucast w) = w"
  unfolding header_size_def by (rule bit_word_eqI) (auto simp: bit_simps)

lemma header_order_bound: "unat (header_order b0 b1) < 4096"
proof -
  have "take_bit 12 (header_order b0 b1) = header_order b0 b1"
    unfolding header_order_def header_masks
    by (rule bit_word_eqI) (auto simp: bit_simps dest: bit_imp_le_length)
  then have "unat (header_order b0 b1) = take_bit 12 (unat (header_order b0 b1))"
    by (metis unsigned_take_bit_eq)
  also have "\<dots> < 4096"
    using take_bit_nat_less_exp [of 12] by simp
  finally show ?thesis .
qed

lemma parse_serialize:
  assumes "wf_message m"
  shows "parse (serialize m @ rest) = m # parse rest"
  using assms
  by (simp add: serialize_def message_header_def wf_message_def codec Let_def)

lemma parse_concat_serialize:
  "(\<And>m. m \<in> set ms \<Longrightarrow> wf_message m) \<Longrightarrow>
   parse (concat (map serialize ms) @ rest) = ms @ parse rest"
  by (induction ms) (auto simp: parse_serialize)

lemma length_serialize [simp]: "length (serialize m) = 4 + length (m_data m)"
  by (simp add: serialize_def message_header_def)

text \<open>
  What the parser returns on arbitrary bytes: order ids below 4096 and no more payload than the
  size field says (the last message of a packet may be cut short).
\<close>

lemma parse_fields:
  "m \<in> set (parse bs) \<Longrightarrow> unat (m_order m) < 4096 \<and> length (m_data m) \<le> unat (m_size m)"
  by (induction bs rule: parse.induct)
    (auto simp: Let_def header_order_bound split: option.splits if_splits)

lemma parse_total_length: "(\<Sum>m\<leftarrow>parse bs. length (serialize m)) \<le> length bs"
proof (induction bs rule: parse.induct)
  case (1 b0 b1 b2 b3 rest)
  let ?s = "unat (header_size b2 b3)"
  have "length (take ?s rest) + length (drop ?s rest) = length rest"
    by simp
  with "1.IH" [OF refl] show ?case
    by (auto simp: Let_def split: option.splits)
qed auto

end
