(* ===== verification/Min_Heap.thy ===== *)
theory Min_Heap
  imports Message
begin

text \<open>
  The priority queue the ordered receive path rests on. \<open>message_queue.rs\<close> uses the standard
  library's \<open>BinaryHeap\<close> with the comparison reversed, so that \<open>peek\<close> and \<open>pop\<close> give a message of
  least order id. The locale states that contract over the multiset of the stored elements; the
  model of the heap is the list of its messages sorted by order id.
\<close>

locale min_queue =
  fixes empty_q :: "'q"
    and push :: "'a \<Rightarrow> 'q \<Rightarrow> 'q"
    and peek :: "'q \<Rightarrow> 'a option"
    and pop :: "'q \<Rightarrow> ('a \<times> 'q) option"
    and key :: "'a \<Rightarrow> 'k::linorder"
    and invar :: "'q \<Rightarrow> bool"
    and contents :: "'q \<Rightarrow> 'a multiset"
  assumes contents_empty: "contents empty_q = {#}"
    and invar_empty: "invar empty_q"
    and contents_push: "contents (push x q) = add_mset x (contents q)"
    and invar_push: "invar q \<Longrightarrow> invar (push x q)"
    and peek_None: "invar q \<Longrightarrow> peek q = None \<longleftrightarrow> contents q = {#}"
    and peek_Some: "invar q \<Longrightarrow> peek q = Some x \<Longrightarrow> x \<in># contents q \<and> (\<forall>y \<in># contents q. key x \<le> key y)"
    and pop_None: "invar q \<Longrightarrow> pop q = None \<longleftrightarrow> peek q = None"
    and pop_Some:
      "invar q \<Longrightarrow> pop q = Some (x, q') \<Longrightarrow>
       peek q = Some x \<and> invar q' \<and> contents q = add_mset x (contents q')"
begin

lemma size_pop: "invar q \<Longrightarrow> pop q = Some (x, q') \<Longrightarrow> size (contents q') < size (contents q)"
  using pop_Some by fastforce

lemma peek_least:
  assumes "invar q" "x \<in># contents q" "\<And>y. y \<in># contents q \<Longrightarrow> y \<noteq> x \<Longrightarrow> key x < key y"
  shows "peek q = Some x"
proof -
  from assms(1,2) peek_None obtain z where z: "peek q = Some z"
    by (cases "peek q") auto
  with peek_Some [OF assms(1) z] assms(2,3) show ?thesis
    by (metis leD)
qed

lemma push_new_least:
  assumes "invar q" "\<And>y. y \<in># contents q \<Longrightarrow> key x < key y"
  shows "peek (push x q) = Some x"
  by (rule peek_least) (use assms contents_push invar_push in auto)

end

subsection \<open>The heap of received ordered messages\<close>

definition heap_push :: "message \<Rightarrow> message list \<Rightarrow> message list" where
  "heap_push m heap = insort_key m_order m heap"

definition heap_peek :: "message list \<Rightarrow> message option" where
  "heap_peek heap = (case heap of [] \<Rightarrow> None | m # _ \<Rightarrow> Some m)"

definition heap_pop :: "message list \<Rightarrow> (message \<times> message list) option" where
  "heap_pop heap = (case heap of [] \<Rightarrow> None | m # heap' \<Rightarrow> Some (m, heap'))"

definition heap_invar :: "message list \<Rightarrow> bool" where
  "heap_invar heap \<longleftrightarrow> sorted (map m_order heap)"

interpretation recv_heap: min_queue "[]" heap_push heap_peek heap_pop m_order heap_invar mset
  by unfold_locales
    (auto simp: heap_push_def heap_peek_def heap_pop_def heap_invar_def sorted_insort_key
      split: list.splits)

end
