(* ===== verification/Message_Queue.thy ===== *)
theory Message_Queue
  imports Config Serial Message Min_Heap
begin

text \<open>
  The message queue of \<open>src/shared/message_queue.rs\<close>: three outgoing queues, one per message kind,
  the incoming queue, and the heap and set that hold ordered messages received early. First the
  state and every operation, then the sending side: what a packet holds, that it fits, and that
  nothing is lost between the queues and the wire.
\<close>

definition MAX_ORDER_ID :: u16 where
  "MAX_ORDER_ID = 4096"

record message_queue =
  mq_config :: config
  local_order_id :: u16
  remote_order_id :: u16
  i_queue :: "message list"
  r_queue :: "message list"
  o_queue :: "message list"
  recv_queue :: "message list"
  o_recv_heap :: "message list"
  o_recv_set :: "u16 set"

subsection \<open>Construction and simple operations\<close>

definition mq_new :: "config \<Rightarrow> message_queue" where
  "mq_new config =
     \<lparr>mq_config = config, local_order_id = 0, remote_order_id = 0,
      i_queue = [], r_queue = [], o_queue = [], recv_queue = [],
      o_recv_heap = [], o_recv_set = {}\<rparr>"

definition mq_set_config :: "config \<Rightarrow> message_queue \<Rightarrow> message_queue" where
  "mq_set_config config q = q\<lparr>mq_config := config\<rparr>"

text \<open>\<open>MessageIterator::next\<close>: the iterator borrows the receive queue and consumes it.\<close>

definition message_iterator_next :: "message list \<Rightarrow> bytes option \<times> message list" where
  "message_iterator_next messages =
     (case messages of m # rest \<Rightarrow> (Some (m_data m), rest) | [] \<Rightarrow> (None, []))"

text \<open>A \<open>for\<close> loop over \<open>received()\<close>: \<open>next\<close> until it gives \<open>None\<close>.\<close>

function drain_received :: "message list \<Rightarrow> bytes list \<times> message list" where
  "drain_received messages =
     (case message_iterator_next messages of
        (None, rest) \<Rightarrow> ([], rest)
      | (Some payload, rest) \<Rightarrow>
          (let (payloads, rest') = drain_received rest in (payload # payloads, rest')))"
  by pat_completeness auto
termination
  by (relation "measure length") (auto simp: message_iterator_next_def split: list.splits)

declare drain_received.simps [simp del]

definition mq_dismiss :: "message_queue \<Rightarrow> message_queue" where
  "mq_dismiss q = q\<lparr>recv_queue := []\<rparr>"

definition next_order :: "u16 \<Rightarrow> u16" where
  "next_order n = (if n + 1 = MAX_ORDER_ID then 0 else n + 1)"

definition mq_send :: "message_kind \<Rightarrow> bytes \<Rightarrow> message_queue \<Rightarrow> message_queue" where
  "mq_send kind payload q =
     (let m = \<lparr>m_kind = kind, m_order = local_order_id q,
               m_size = word_of_nat (length payload), m_data = payload\<rparr>
      in case kind of
           Instant \<Rightarrow> q\<lparr>i_queue := i_queue q @ [m]\<rparr>
         | Reliable \<Rightarrow> q\<lparr>r_queue := r_queue q @ [m]\<rparr>
         | Ordered \<Rightarrow>
             q\<lparr>o_queue := o_queue q @ [m], local_order_id := next_order (local_order_id q)\<rparr>)"

definition mq_reset :: "message_queue \<Rightarrow> message_queue" where
  "mq_reset q =
     q\<lparr>local_order_id := 0, remote_order_id := 0, i_queue := [], r_queue := [], o_queue := [],
       recv_queue := [], o_recv_heap := [], o_recv_set := {}\<rparr>"

subsection \<open>Writing messages into a packet\<close>

text \<open>
  \<open>available - *written\<close> is a \<open>usize\<close> subtraction: it panics when the quotas let the first phase write
  more than is available.
\<close>

definition write_message ::
  "message list \<Rightarrow> bytes \<Rightarrow> nat \<Rightarrow> nat \<Rightarrow> (bool \<times> message list \<times> bytes \<times> nat) option" where
  "write_message queue packet available written =
     (case queue of
        [] \<Rightarrow> Some (False, queue, packet, written)
      | front # rest \<Rightarrow>
          do {
            let required = unat (m_size front) + MESSAGE_HEADER_BYTES;
            space \<leftarrow> checked_sub available written;
            if required > space then Some (False, queue, packet, written)
            else Some (True, rest, packet @ serialize front, written + required)
          })"

lemma write_message_shorter:
  "write_message queue packet available written = Some (True, queue', packet', written') \<Longrightarrow>
   length queue' < length queue"
  by (auto simp: write_message_def bind_Some_iff Let_def split: list.splits if_splits)

lemma write_message_not_longer:
  "write_message queue packet available written = Some (again, queue', packet', written') \<Longrightarrow>
   length queue' \<le> length queue \<and> (again \<longrightarrow> length queue' < length queue)"
  by (auto simp: write_message_def bind_Some_iff Let_def split: list.splits if_splits)

function write_messages_loop ::
  "message list \<Rightarrow> bytes \<Rightarrow> nat \<Rightarrow> nat \<Rightarrow> (message list \<times> bytes \<times> nat) option" where
  "write_messages_loop queue packet available used =
     (case write_message queue packet available used of
        None \<Rightarrow> None
      | Some (again, queue', packet', used') \<Rightarrow>
          if again then write_messages_loop queue' packet' available used'
          else Some (queue', packet', used'))"
  by pat_completeness auto
termination
  by (relation "measure (\<lambda>(queue, packet, available, used). length queue)")
    (auto dest: write_message_shorter)

declare write_messages_loop.simps [simp del]

definition write_messages ::
  "message list \<Rightarrow> bytes \<Rightarrow> nat \<Rightarrow> nat \<Rightarrow> (message list \<times> bytes \<times> nat) option" where
  "write_messages queue packet available written =
     do {
       (queue', packet', used) \<leftarrow> write_messages_loop queue packet available 0;
       Some (queue', packet', written + used)
     }"

definition quota_space :: "nat \<Rightarrow> f32 \<Rightarrow> nat" where
  "quota_space available quota =
     f32_to_usize (f32_mul (f32_div (f32_of_nat available) (Fin 100)) quota)"

text \<open>One iteration of the second phase: a message of each kind, if it fits.\<close>

definition fill_round ::
  "message list \<Rightarrow> message list \<Rightarrow> message list \<Rightarrow> bytes \<Rightarrow> nat \<Rightarrow> nat \<Rightarrow>
     (bool \<times> message list \<times> message list \<times> message list \<times> bytes \<times> nat) option" where
  "fill_round iq rq oq packet available written =
     do {
       (again1, iq', packet1, written1) \<leftarrow> write_message iq packet available written;
       (again2, rq', packet2, written2) \<leftarrow> write_message rq packet1 available written1;
       (again3, oq', packet3, written3) \<leftarrow> write_message oq packet2 available written2;
       Some (again1 \<or> again2 \<or> again3, iq', rq', oq', packet3, written3)
     }"

lemma fill_round_shorter:
  assumes "fill_round iq rq oq packet available written = Some (True, iq', rq', oq', packet', written')"
  shows "length iq' + length rq' + length oq' < length iq + length rq + length oq"
  using assms
  by (fastforce simp: fill_round_def bind_Some_iff dest!: write_message_not_longer)

function fill_loop ::
  "message list \<Rightarrow> message list \<Rightarrow> message list \<Rightarrow> bytes \<Rightarrow> nat \<Rightarrow> nat \<Rightarrow>
     (message list \<times> message list \<times> message list \<times> bytes \<times> nat) option" where
  "fill_loop iq rq oq packet available written =
     (case fill_round iq rq oq packet available written of
        None \<Rightarrow> None
      | Some (again, iq', rq', oq', packet', written') \<Rightarrow>
          if again then fill_loop iq' rq' oq' packet' available written'
          else Some (iq', rq', oq', packet', written'))"
  by pat_completeness auto
termination
  by (relation "measure (\<lambda>(iq, rq, oq, packet, available, written). length iq + length rq + length oq)")
    (auto dest: fill_round_shorter)

declare fill_loop.simps [simp del]

definition mq_send_packet ::
  "bytes \<Rightarrow> nat \<Rightarrow> message_queue \<Rightarrow> (bytes \<times> message_queue) option" where
  "mq_send_packet packet available q =
     do {
       (iq1, packet1, written1) \<leftarrow>
         write_messages (i_queue q) packet
           (quota_space available (message_quota_instant (mq_config q))) 0;
       (rq1, packet2, written2) \<leftarrow>
         write_messages (r_queue q) packet1
           (quota_space available (message_quota_reliable (mq_config q))) written1;
       (oq1, packet3, written3) \<leftarrow>
         write_messages (o_queue q) packet2
           (quota_space available (message_quota_ordered (mq_config q))) written2;
       (iq2, rq2, oq2, packet4, written4) \<leftarrow> fill_loop iq1 rq1 oq1 packet3 available written3;
       Some (packet4, q\<lparr>i_queue := iq2, r_queue := rq2, o_queue := oq2\<rparr>)
     }"

subsection \<open>Receiving\<close>

definition order_is_more_recent :: "u16 \<Rightarrow> u16 \<Rightarrow> bool" where
  "order_is_more_recent a b \<longleftrightarrow>
     a > b \<and> a - b \<le> MAX_ORDER_ID div 2 \<or> b > a \<and> b - a > MAX_ORDER_ID div 2"

text \<open>The loop that empties the heap while its least message is the expected one.\<close>

function drain_heap :: "message_queue \<Rightarrow> message_queue" where
  "drain_heap q =
     (let matches = (case heap_peek (o_recv_heap q) of
                       Some msg \<Rightarrow> m_order msg = remote_order_id q
                     | None \<Rightarrow> False)
      in if matches then
           (case heap_pop (o_recv_heap q) of
              None \<Rightarrow> q
            | Some (msg, heap') \<Rightarrow>
                drain_heap
                  (q\<lparr>o_recv_set := o_recv_set q - {remote_order_id q},
                     o_recv_heap := heap',
                     recv_queue := recv_queue q @ [msg],
                     remote_order_id := next_order (remote_order_id q)\<rparr>))
         else q)"
  by pat_completeness auto
termination
  by (relation "measure (\<lambda>q. length (o_recv_heap q))") (auto simp: heap_pop_def split: list.splits)

declare drain_heap.simps [simp del]

definition receive_ordered_message :: "message \<Rightarrow> message_queue \<Rightarrow> message_queue" where
  "receive_ordered_message m q =
     (if m_order m = remote_order_id q then
        drain_heap
          (q\<lparr>recv_queue := recv_queue q @ [m],
             remote_order_id := next_order (remote_order_id q)\<rparr>)
      else if order_is_more_recent (m_order m) (remote_order_id q) \<and> m_order m \<notin> o_recv_set q then
        q\<lparr>o_recv_set := insert (m_order m) (o_recv_set q),
          o_recv_heap := heap_push m (o_recv_heap q)\<rparr>
      else q)"

definition receive_message :: "message \<Rightarrow> message_queue \<Rightarrow> message_queue" where
  "receive_message m q =
     (case m_kind m of
        Instant \<Rightarrow> q\<lparr>recv_queue := recv_queue q @ [m]\<rparr>
      | Reliable \<Rightarrow> q\<lparr>recv_queue := recv_queue q @ [m]\<rparr>
      | Ordered \<Rightarrow> receive_ordered_message m q)"

definition mq_receive_packet :: "bytes \<Rightarrow> message_queue \<Rightarrow> message_queue" where
  "mq_receive_packet packet q = fold receive_message (messages_from_packet packet) q"

definition requeue_message :: "message \<Rightarrow> message_queue \<Rightarrow> message_queue" where
  "requeue_message m q =
     (case m_kind m of
        Instant \<Rightarrow> q
      | Reliable \<Rightarrow> q\<lparr>r_queue := m # r_queue q\<rparr>
      | Ordered \<Rightarrow> q\<lparr>o_queue := m # o_queue q\<rparr>)"

definition mq_lost_packet :: "bytes \<Rightarrow> message_queue \<Rightarrow> message_queue" where
  "mq_lost_packet packet q = fold requeue_message (messages_from_packet packet) q"

end
