(* ===== verification/Rate_Limiter.thy ===== *)
theory Rate_Limiter
  imports Config
begin

text \<open>
  Congestion avoidance: the trait \<open>RateLimiter\<close> of \<open>src/traits/rate_limiter.rs\<close> as a record of
  operations with a locale of laws, what a connection may rely on, and \<open>BinaryRateLimiter\<close> of \<open>src/shared/binary_rate_limiter.rs\<close>, which
  interprets it. The limiter reads the clock several times in one call; the readings are taken in the
  order of the source.
\<close>

subsection \<open>The trait\<close>

record 'r rate_limiter =
  rl_new :: "config \<Rightarrow> clock \<Rightarrow> 'r \<times> clock"
  rl_update :: "u32 \<Rightarrow> f32 \<Rightarrow> clock \<Rightarrow> 'r \<Rightarrow> ('r \<times> clock) option"
  rl_congested :: "'r \<Rightarrow> bool"
  rl_should_send :: "'r \<Rightarrow> bool"
  rl_reset :: "clock \<Rightarrow> 'r \<Rightarrow> 'r \<times> clock"

text \<open>A run of updates with measured round trip times and losses, on one clock.\<close>

fun run_updates ::
  "(u32 \<Rightarrow> f32 \<Rightarrow> clock \<Rightarrow> 'r \<Rightarrow> ('r \<times> clock) option) \<Rightarrow> (u32 \<times> f32) list \<Rightarrow> clock \<Rightarrow> 'r \<Rightarrow>
     ('r \<times> clock) option" where
  "run_updates update [] c r = Some (r, c)"
| "run_updates update ((rtt, loss) # samples) c r =
     do { (r', c') \<leftarrow> update rtt loss c r; run_updates update samples c' r' }"

lemma run_updates_append:
  "run_updates update (xs @ ys) c r =
     do { (r', c') \<leftarrow> run_updates update xs c r; run_updates update ys c' r' }"
  by (induction update xs c r rule: run_updates.induct) (auto split: option.splits bind_splits)

locale rate_limiter_laws =
  fixes R :: "'r rate_limiter"
    and invar :: "'r \<Rightarrow> bool"
    and valid_config :: "config \<Rightarrow> bool"
    and period :: nat
  assumes new_invar: "valid_config config \<Longrightarrow> invar (fst (rl_new R config c))"
    and new_free: "\<not> rl_congested R (fst (rl_new R config c))"
    and reset_invar: "invar r \<Longrightarrow> invar (fst (rl_reset R c r))"
    and reset_free: "\<not> rl_congested R (fst (rl_reset R c r))"
    and update_total: "invar r \<Longrightarrow> \<exists>r' c'. rl_update R rtt loss c r = Some (r', c')"
    and update_invar: "invar r \<Longrightarrow> rl_update R rtt loss c r = Some (r', c') \<Longrightarrow> invar r'"
    and free_sends: "\<not> rl_congested R r \<Longrightarrow> rl_should_send R r"
    and fair:
      "invar r \<Longrightarrow> length samples = period \<Longrightarrow>
       \<exists>n \<le> period. \<exists>r' c'. run_updates (rl_update R) (take n samples) c r = Some (r', c') \<and>
         rl_should_send R r'"
begin

lemma run_total:
  "invar r \<Longrightarrow> \<exists>r' c'. run_updates (rl_update R) samples c r = Some (r', c') \<and> invar r'"
proof (induction samples arbitrary: r c)
  case (Cons s samples)
  obtain rtt loss where s: "s = (rtt, loss)" by force
  obtain r1 c1 where "rl_update R rtt loss c r = Some (r1, c1)" "invar r1"
    using update_total [OF Cons.prems] update_invar [OF Cons.prems] by blast
  with Cons.IH s show ?case by simp
qed simp

text \<open>However long the limiter runs, the next chance to send is at most \<open>period\<close> updates away.\<close>

lemma never_starves:
  assumes "invar r" "length more_samples = period"
  shows "\<exists>n \<le> period. \<exists>r' c'.
    run_updates (rl_update R) (samples @ take n more_samples) c r = Some (r', c') \<and> rl_should_send R r'"
proof -
  from run_total [OF assms(1)] obtain r1 c1 where
    r1: "run_updates (rl_update R) samples c r = Some (r1, c1)" "invar r1" by blast
  from fair [OF r1(2) assms(2)] r1(1) show ?thesis by (fastforce simp: run_updates_append)
qed

end

subsection \<open>The binary rate limiter\<close>

definition MIN_GOOD_MODE_TIME_DELAY :: nat where
  "MIN_GOOD_MODE_TIME_DELAY = 1000"

definition MAX_GOOD_MODE_TIME_DELAY :: nat where
  "MAX_GOOD_MODE_TIME_DELAY = 60000"

datatype mode = Good | Bad

record binary_rate_limiter =
  bl_tick :: u32
  bl_max_tick :: u32
  bl_mode :: mode
  rtt_threshold :: u32
  last_bad_time :: instant
  last_good_time :: instant
  good_time_duration :: nat
  delay_until_good_mode :: nat

text \<open>\<open>millis_from_duration\<close> splits a duration into seconds and nanoseconds before it adds them up.\<close>

definition millis_from_duration :: "duration \<Rightarrow> nat" where
  "millis_from_duration d = d div 1000000000 * 1000 + d mod 1000000000 div 1000000"

definition time_since :: "instant \<Rightarrow> instant \<Rightarrow> nat" where
  "time_since now i = millis_from_duration (now - i)"

definition max_tick_of :: "nat \<Rightarrow> u32" where
  "max_tick_of rate_per_second =
     (let rate = f32_of_nat rate_per_second
      in f32_to_u32 (f32_div rate (f32_div (Fin 33) (f32_div (Fin 100) rate))))"

definition binary_new :: "config \<Rightarrow> clock \<Rightarrow> binary_rate_limiter \<times> clock" where
  "binary_new config c =
     (\<lparr>bl_tick = 0, bl_max_tick = max_tick_of (send_rate config), bl_mode = Good,
       rtt_threshold = 250, last_bad_time = c 0, last_good_time = c 1,
       good_time_duration = 0, delay_until_good_mode = MIN_GOOD_MODE_TIME_DELAY\<rparr>,
      clock_skip 2 c)"

text \<open>The first match of \<open>update\<close>: the network conditions and the bookkeeping that goes with them.\<close>

definition conditions :: "u32 \<Rightarrow> clock \<Rightarrow> binary_rate_limiter \<Rightarrow> mode \<times> binary_rate_limiter \<times> clock" where
  "conditions rtt c r =
     (if rtt \<le> rtt_threshold r then
        (Good,
         r\<lparr>good_time_duration := good_time_duration r + time_since (c 0) (last_good_time r),
           last_good_time := c 1\<rparr>,
         clock_skip 2 c)
      else (Bad, r\<lparr>last_bad_time := c 0, good_time_duration := 0\<rparr>, clock_skip 1 c))"

text \<open>The second match: the mode changes.\<close>

definition switch_mode :: "mode \<Rightarrow> clock \<Rightarrow> binary_rate_limiter \<Rightarrow> (binary_rate_limiter \<times> clock) option" where
  "switch_mode conds c r =
     (case bl_mode r of
        Good \<Rightarrow>
          (case conds of
             Bad \<Rightarrow>
               (let r = r\<lparr>bl_mode := Bad\<rparr>
                in Some (if time_since (c 0) (last_bad_time r) < 10000
                         then r\<lparr>delay_until_good_mode :=
                                  min (delay_until_good_mode r * 2) MAX_GOOD_MODE_TIME_DELAY\<rparr>
                         else r,
                         clock_skip 1 c))
           | Good \<Rightarrow>
               if 10000 \<le> good_time_duration r then
                 do {
                   rest \<leftarrow> checked_sub (good_time_duration r) 10000;
                   Some (r\<lparr>good_time_duration := rest,
                           delay_until_good_mode :=
                             max (delay_until_good_mode r) MIN_GOOD_MODE_TIME_DELAY\<rparr>, c)
                 }
               else Some (r, c))
      | Bad \<Rightarrow>
          Some (if delay_until_good_mode r < time_since (c 0) (last_bad_time r)
                then r\<lparr>bl_mode := Good\<rparr> else r,
                clock_skip 1 c))"

definition advance_tick :: "binary_rate_limiter \<Rightarrow> binary_rate_limiter option" where
  "advance_tick r =
     do {
       t \<leftarrow> checked_add_u32 (bl_tick r) 1;
       Some (r\<lparr>bl_tick := if t = bl_max_tick r then 0 else t\<rparr>)
     }"

definition binary_update ::
  "u32 \<Rightarrow> f32 \<Rightarrow> clock \<Rightarrow> binary_rate_limiter \<Rightarrow> (binary_rate_limiter \<times> clock) option" where
  "binary_update rtt packet_loss c r =
     do {
       let (conds, r, c) = conditions rtt c r;
       (r, c) \<leftarrow> switch_mode conds c r;
       r \<leftarrow> advance_tick r;
       Some (r, c)
     }"

definition binary_congested :: "binary_rate_limiter \<Rightarrow> bool" where
  "binary_congested r \<longleftrightarrow> bl_mode r = Bad"

definition binary_should_send :: "binary_rate_limiter \<Rightarrow> bool" where
  "binary_should_send r \<longleftrightarrow> \<not> binary_congested r \<or> bl_tick r = 0"

definition binary_reset :: "clock \<Rightarrow> binary_rate_limiter \<Rightarrow> binary_rate_limiter \<times> clock" where
  "binary_reset c r =
     (r\<lparr>bl_tick := 0, bl_mode := Good, last_bad_time := c 0, last_good_time := c 1,
        good_time_duration := 0, delay_until_good_mode := MIN_GOOD_MODE_TIME_DELAY\<rparr>,
      clock_skip 2 c)"

definition binary_limiter :: "binary_rate_limiter rate_limiter" where
  "binary_limiter =
     \<lparr>rl_new = binary_new, rl_update = binary_update, rl_congested = binary_congested,
      rl_should_send = binary_should_send, rl_reset = binary_reset\<rparr>"

lemma binary_limiter_simps [simp]:
  "rl_new binary_limiter = binary_new" "rl_update binary_limiter = binary_update"
  "rl_congested binary_limiter = binary_congested" "rl_should_send binary_limiter = binary_should_send"
  "rl_reset binary_limiter = binary_reset"
  by (simp_all add: binary_limiter_def)

subsection \<open>The number of ticks\<close>

text \<open>\<open>rate / (33 / (100 / rate))\<close> is \<open>100 / 33\<close> up to rounding, whatever the rate.\<close>

lemma max_tick_of_3:
  assumes "1 \<le> n" "n < 2 ^ 24"
  shows "max_tick_of n = 3"
proof -
  let ?x = "of_nat n :: rat"
  have x: "1 \<le> ?x" "?x < 2 ^ 24"
    using assms by (simp, metis of_nat_less_iff of_nat_numeral of_nat_power)
  have fx: "f32_of_nat n = Fin ?x" using assms(2) by (rule f32_of_nat_small)
  obtain a where a: "f32_round (100 / ?x) = Fin (100 / ?x * a)" "1 - 1 / 2 ^ 20 \<le> a" "a \<le> 1 + 1 / 2 ^ 20"
    by (rule f32_round_rel [of "100 / ?x"]) (use x in \<open>simp_all add: field_simps\<close>)
  have a0: "0 < a" using a(2) by (rule order_less_le_trans [rotated]) simp
  have q: "33 / (100 / ?x * a) = 33 / 100 * ?x / a" using x by (simp add: field_simps)
  obtain b where b: "f32_round (33 / 100 * ?x / a) = Fin (33 / 100 * ?x / a * b)"
    "1 - 1 / 2 ^ 20 \<le> b" "b \<le> 1 + 1 / 2 ^ 20"
  proof (rule f32_round_rel [of "33 / 100 * ?x / a"])
    show "1 / 2 ^ 100 \<le> 33 / 100 * ?x / a" using a0 a(3) x by (simp add: field_simps)
    show "33 / 100 * ?x / a \<le> 2 ^ 100" using a0 a(2) x by (simp add: field_simps)
  qed
  have b0: "0 < b" using b(2) by (rule order_less_le_trans [rotated]) simp
  have r: "?x / (33 / 100 * ?x / a * b) = 100 / 33 * (a / b)" using x a0 b0 by (simp add: field_simps)
  have ab: "1 - 1 / 2 ^ 18 \<le> a / b" "a / b \<le> 1 + 1 / 2 ^ 18"
    using a0 b0 a(2,3) b(2,3) by (simp_all add: field_simps)
  obtain c where c: "f32_round (100 / 33 * (a / b)) = Fin (100 / 33 * (a / b) * c)"
    "1 - 1 / 2 ^ 20 \<le> c" "c \<le> 1 + 1 / 2 ^ 20"
  proof (rule f32_round_rel [of "100 / 33 * (a / b)"])
    show "1 / 2 ^ 100 \<le> 100 / 33 * (a / b)" "100 / 33 * (a / b) \<le> 2 ^ 100" using ab by simp_all
  qed
  have c0: "0 < c" using c(2) by (rule order_less_le_trans [rotated]) simp
  have "(1 - 1 / 2 ^ 18) * (1 - 1 / 2 ^ 20) \<le> a / b * c"
    by (rule mult_mono) (use ab c c0 a0 b0 in simp_all)
  moreover have "a / b * c \<le> (1 + 1 / 2 ^ 18) * (1 + 1 / 2 ^ 20)"
    by (rule mult_mono) (use ab c c0 a0 b0 in simp_all)
  ultimately have "\<lfloor>100 / 33 * (a / b * c)\<rfloor> = 3"
    by (intro floor_unique) simp_all
  then have f: "\<lfloor>100 / 33 * (a / b) * c\<rfloor> = 3" by (simp only: mult.assoc)
  have "f32_div (Fin 100) (Fin ?x) = Fin (100 / ?x * a)" using x a(1) by simp
  moreover have "f32_div (Fin 33) (Fin (100 / ?x * a)) = Fin (33 / 100 * ?x / a * b)"
    using x a0 unfolding f32_div.simps q b(1) by simp
  moreover have "f32_div (Fin ?x) (Fin (33 / 100 * ?x / a * b)) = Fin (100 / 33 * (a / b) * c)"
    using x a0 b0 unfolding f32_div.simps r c(1) by simp
  ultimately show ?thesis
    by (simp only: max_tick_of_def Let_def fx f32_to_u32_def f32_to_nat.simps f) simp
qed
subsection \<open>Updates\<close>

definition binary_invar :: "binary_rate_limiter \<Rightarrow> bool" where
  "binary_invar r \<longleftrightarrow> bl_max_tick r = 3 \<and> bl_tick r < 3 \<and>
     MIN_GOOD_MODE_TIME_DELAY \<le> delay_until_good_mode r \<and>
     delay_until_good_mode r \<le> MAX_GOOD_MODE_TIME_DELAY"

definition binary_valid :: "config \<Rightarrow> bool" where
  "binary_valid config \<longleftrightarrow> 1 \<le> send_rate config \<and> send_rate config < 2 ^ 24"

lemmas delay_limits = MIN_GOOD_MODE_TIME_DELAY_def MAX_GOOD_MODE_TIME_DELAY_def

lemma tick_cases: "(t :: u32) < 3 \<longleftrightarrow> t = 0 \<or> t = 1 \<or> t = 2"
proof -
  have "unat t = 0 \<or> unat t = 1 \<or> unat t = 2" if "unat t < 3" using that by linarith
  then show ?thesis by (auto simp: word_less_nat_alt word_unat_eq_iff)
qed

definition next_tick :: "u32 \<Rightarrow> u32" where
  "next_tick t = (if t = 2 then 0 else t + 1)"

lemma advance_tick_3:
  "bl_max_tick r = 3 \<Longrightarrow> bl_tick r < 3 \<Longrightarrow> advance_tick r = Some (r\<lparr>bl_tick := next_tick (bl_tick r)\<rparr>)"
  by (auto simp: advance_tick_def checked_add_u32_def tick_cases next_tick_def)

text \<open>\<open>update\<close> in one equation: the mode and the bookkeeping are \<open>switched\<close>, then the tick advances.\<close>

definition switched :: "u32 \<Rightarrow> clock \<Rightarrow> binary_rate_limiter \<Rightarrow> binary_rate_limiter \<times> clock" where
  "switched rtt c r =
     (case conditions rtt c r of (conds, r', c') \<Rightarrow> the (switch_mode conds c' r'))"

lemma switch_mode_total: "\<exists>r' c'. switch_mode conds c r = Some (r', c')"
  by (auto simp: switch_mode_def Let_def split: mode.splits)

lemma switch_mode_keeps:
  assumes "switch_mode conds c r = Some (r', c')"
  shows "bl_tick r' = bl_tick r" "bl_max_tick r' = bl_max_tick r"
    "MIN_GOOD_MODE_TIME_DELAY \<le> delay_until_good_mode r \<Longrightarrow>
     delay_until_good_mode r \<le> MAX_GOOD_MODE_TIME_DELAY \<Longrightarrow>
     delay_until_good_mode r \<le> delay_until_good_mode r' \<and>
     delay_until_good_mode r' \<le> MAX_GOOD_MODE_TIME_DELAY"
  using assms
  by (auto simp: switch_mode_def Let_def bind_Some_iff checked_sub_eq_Some_iff delay_limits
      split: mode.splits if_splits)

lemma conditions_keeps:
  "conditions rtt c r = (conds, r', c') \<Longrightarrow>
   bl_tick r' = bl_tick r \<and> bl_max_tick r' = bl_max_tick r \<and>
   delay_until_good_mode r' = delay_until_good_mode r \<and> bl_mode r' = bl_mode r"
  by (auto simp: conditions_def split: if_splits)

lemma binary_update_switched:
  assumes "binary_invar r" "switched rtt c r = (r', c')"
  shows "binary_update rtt loss c r = Some (r'\<lparr>bl_tick := next_tick (bl_tick r)\<rparr>, c')"
    "bl_max_tick r' = 3" "bl_tick r' = bl_tick r"
    "delay_until_good_mode r \<le> delay_until_good_mode r'"
    "delay_until_good_mode r' \<le> MAX_GOOD_MODE_TIME_DELAY"
proof -
  obtain conds r1 c1 where 1: "conditions rtt c r = (conds, r1, c1)" by (cases "conditions rtt c r")
  obtain r2 c2 where 2: "switch_mode conds c1 r1 = Some (r2, c2)" using switch_mode_total by blast
  have r2: "r2 = r'" "c2 = c'" using assms(2) 1 2 by (simp_all add: switched_def)
  note k = conditions_keeps [OF 1] switch_mode_keeps [OF 2]
  then show "bl_max_tick r' = 3" "bl_tick r' = bl_tick r"
    "delay_until_good_mode r \<le> delay_until_good_mode r'"
    "delay_until_good_mode r' \<le> MAX_GOOD_MODE_TIME_DELAY"
    using assms(1) unfolding r2 binary_invar_def by simp_all
  then show "binary_update rtt loss c r = Some (r'\<lparr>bl_tick := next_tick (bl_tick r)\<rparr>, c')"
    using assms(1) 1 2 r2 by (simp add: binary_update_def binary_invar_def advance_tick_3)
qed

lemma binary_update_steps:
  assumes "binary_invar r"
  obtains r' c' where "binary_update rtt loss c r = Some (r', c')" "binary_invar r'"
    "bl_tick r' = next_tick (bl_tick r)" "delay_until_good_mode r \<le> delay_until_good_mode r'"
proof (cases "switched rtt c r")
  case (Pair r' c')
  note s = binary_update_switched(1) [OF assms Pair, of loss] binary_update_switched(2-) [OF assms Pair]
  have "binary_invar (r'\<lparr>bl_tick := next_tick (bl_tick r)\<rparr>)"
    using s(2-5) assms by (auto simp: binary_invar_def next_tick_def tick_cases)
  then show thesis using that [OF s(1)] s(4) by simp
qed

lemma binary_run:
  assumes "binary_invar r"
  obtains r' c' where "run_updates binary_update samples c r = Some (r', c')" "binary_invar r'"
    "bl_tick r' = (next_tick ^^ length samples) (bl_tick r)"
    "delay_until_good_mode r \<le> delay_until_good_mode r'"
  using assms
proof (induction samples arbitrary: r c thesis)
  case Nil
  then show ?case by simp
next
  case (Cons s samples)
  obtain rtt loss where s: "s = (rtt, loss)" by force
  obtain r1 c1 where 1: "binary_update rtt loss c r = Some (r1, c1)" "binary_invar r1"
    "bl_tick r1 = next_tick (bl_tick r)" "delay_until_good_mode r \<le> delay_until_good_mode r1"
    by (rule binary_update_steps [OF Cons.prems(2)])
  obtain r2 c2 where 2: "run_updates binary_update samples c1 r1 = Some (r2, c2)" "binary_invar r2"
    "bl_tick r2 = (next_tick ^^ length samples) (bl_tick r1)"
    "delay_until_good_mode r1 \<le> delay_until_good_mode r2"
    by (rule Cons.IH [OF _ 1(2)])
  show ?case
    by (rule Cons.prems(1) [of r2 c2]) (use 1 2 s in \<open>simp_all add: funpow_swap1\<close>)
qed

lemma binary_new_invar: "binary_valid config \<Longrightarrow> binary_invar (fst (binary_new config c))"
  by (simp add: binary_new_def binary_invar_def binary_valid_def max_tick_of_3 delay_limits)

text \<open>Among the ticks of two updates is one where a congested connection sends.\<close>

lemma binary_fair:
  assumes "binary_invar r" "length samples = 2"
  shows "\<exists>n \<le> 2. \<exists>r' c'.
    run_updates binary_update (take n samples) c r = Some (r', c') \<and> binary_should_send r'"
proof -
  have "bl_tick r = 0 \<or> bl_tick r = 1 \<or> bl_tick r = 2"
    using assms(1) by (simp add: binary_invar_def tick_cases)
  then obtain n where n: "n \<le> 2" "(next_tick ^^ n) (bl_tick r) = 0"
  proof (elim disjE, goal_cases)
    case 1 then show ?case using 1(1) [of 0] by simp
  next
    case 2 then show ?case using 2(1) [of 2] by (simp add: next_tick_def numeral_2_eq_2)
  next
    case 3 then show ?case using 3(1) [of 1] by (simp add: next_tick_def)
  qed
  obtain r' c' where "run_updates binary_update (take n samples) c r = Some (r', c')"
    "bl_tick r' = (next_tick ^^ length (take n samples)) (bl_tick r)"
    by (rule binary_run [OF assms(1)])
  moreover have "length (take n samples) = n" using n(1) assms(2) by simp
  ultimately show ?thesis using n by (auto simp: binary_should_send_def)
qed

interpretation binary: rate_limiter_laws binary_limiter binary_invar binary_valid 2
proof (unfold_locales, unfold binary_limiter_simps)
  show "\<exists>r' c'. binary_update rtt loss c r = Some (r', c')" if "binary_invar r" for r rtt loss c
    using binary_update_steps [OF that] by metis
  show "binary_invar r'" if "binary_invar r" "binary_update rtt loss c r = Some (r', c')"
    for r rtt loss c r' c'
    using binary_update_steps [OF that(1)] that(2) by (metis option.inject prod.inject)
  show "binary_invar (fst (binary_reset c r))" if "binary_invar r" for r c
    using that by (simp add: binary_invar_def binary_reset_def delay_limits)
  show "\<exists>n \<le> 2. \<exists>r' c'. run_updates binary_update (take n samples) c r = Some (r', c') \<and>
      binary_should_send r'" if "binary_invar r" "length samples = 2" for r samples c
    using that by (rule binary_fair)
qed (simp_all add: binary_new_invar, simp_all add: binary_new_def binary_reset_def
    binary_congested_def binary_should_send_def)

lemmas binary_run_total = binary.run_total [unfolded binary_limiter_simps]
lemmas binary_never_starves = binary.never_starves [unfolded binary_limiter_simps]

subsection \<open>Properties\<close>

text \<open>For every send rate a sender can be configured with, the tick counter of the limiter wraps at
  three, "about a third of normal send rate", whatever the rounding of the float expression does.\<close>

lemma max_tick_is_three:
  assumes "1 \<le> send_rate config" "send_rate config < 2 ^ 24"
  shows "bl_max_tick (fst (binary_new config c)) = 3"
  using max_tick_of_3 [OF assms] by (simp add: binary_new_def)

text \<open>No sequence of round trip times and clock readings makes the limiter panic, and it always keeps
  its tick below three and its delay between one second and one minute.\<close>

lemma limiter_stays_in_bounds:
  assumes "binary_valid config"
  shows "\<exists>r' c'. run_updates binary_update samples c (fst (binary_new config c0)) = Some (r', c') \<and>
    unat (bl_tick r') < 3 \<and>
    1000 \<le> delay_until_good_mode r' \<and> delay_until_good_mode r' \<le> 60000"
proof -
  obtain r' c' where "run_updates binary_update samples c (fst (binary_new config c0)) = Some (r', c')"
    "binary_invar r'"
    using binary_run_total [OF binary_new_invar [OF assms]] by blast
  then show ?thesis by (simp add: binary_invar_def delay_limits word_less_nat_alt)
qed

text \<open>C24: A congested connection is never starved: whatever happened before and whatever is measured
  next, within two more updates there is a tick at which the limiter lets a packet through.\<close>

theorem limiter_never_starves:
  assumes "binary_valid config" "length more_samples = 2"
  shows "\<exists>n \<le> 2. \<exists>r' c'.
    run_updates binary_update (samples @ take n more_samples) c (fst (binary_new config c0)) =
      Some (r', c') \<and> binary_should_send r'"
  using binary_never_starves [OF binary_new_invar [OF assms(1)] assms(2)] by blast

theorem limiter_never_starves_witness:
  "\<exists>n \<le> 2. \<exists>r' c'.
    run_updates binary_update ([(900, Fin 1)] @ take n [(900, Fin 1), (900, Fin 1)]) (\<lambda>n. n)
      (fst (binary_new default_config (\<lambda>n. n))) = Some (r', c') \<and> binary_should_send r'"
  by (rule limiter_never_starves) (simp_all add: binary_valid_def)

text \<open>The mode changes exactly as documented: a good connection turns bad at once when the round
  trip time exceeds the threshold, a bad one turns good when conditions are good and more than the
  current delay has passed since the last bad measurement.\<close>

lemma limiter_mode_transitions:
  assumes "binary_update rtt loss c r = Some (r', c')"
  shows "(bl_mode r = Good \<longrightarrow> (binary_congested r' \<longleftrightarrow> rtt_threshold r < rtt)) \<and>
    (bl_mode r = Bad \<and> rtt \<le> rtt_threshold r \<longrightarrow>
       (binary_congested r' \<longleftrightarrow> time_since (c 2) (last_bad_time r) \<le> delay_until_good_mode r))"
  using assms
  by (auto simp: binary_update_def conditions_def switch_mode_def advance_tick_def bind_Some_iff Let_def
      binary_congested_def numeral_2_eq_2 split: if_splits mode.splits)

text \<open>Dropping from good to bad doubles the delay however long the connection was good: \<open>update\<close> sets
  \<open>last_bad_time\<close> to the present before it compares it with ten seconds, so that the exception for a
  drop after more than ten seconds never applies.\<close>

lemma every_drop_doubles_delay:
  assumes "binary_update rtt loss c r = Some (r', c')"
    and "bl_mode r = Good" "rtt_threshold r < rtt" "c 1 < c 0 + 10 * 1000000000"
  shows "delay_until_good_mode r' = min (delay_until_good_mode r * 2) 60000"
proof -
  have "time_since (c 1) (c 0) < 10000"
  proof -
    let ?d = "c 1 - c 0"
    have "?d div 1000000000 \<le> 9" using assms(4) by (simp add: less_mult_imp_div_less [of _ 10, simplified] flip: less_Suc_eq_le)
    moreover have "?d mod 1000000000 div 1000000 < 1000"
      by (rule less_mult_imp_div_less) simp
    ultimately show ?thesis by (simp add: time_since_def millis_from_duration_def)
  qed
  with assms show ?thesis
    by (auto simp: binary_update_def conditions_def switch_mode_def advance_tick_def bind_Some_iff Let_def
        delay_limits split: if_splits)
qed

definition good_limiter :: binary_rate_limiter where
  "good_limiter = \<lparr>bl_tick = 0, bl_max_tick = 3, bl_mode = Good, rtt_threshold = 250, last_bad_time = 0,
     last_good_time = 0, good_time_duration = 0, delay_until_good_mode = 4000\<rparr>"

lemma good_limiter_drops:
  "\<exists>r' c'. binary_update 300 (Fin 0) (\<lambda>n. 90000000000 + n) good_limiter = Some (r', c') \<and>
     delay_until_good_mode r' = 8000 \<and> binary_congested r'"
  by (simp add: good_limiter_def binary_update_def conditions_def switch_mode_def advance_tick_def
      checked_add_u32_def time_since_def millis_from_duration_def delay_limits binary_congested_def)

text \<open>C39: The delay before a congested connection may send at full rate again only ever grows. No update shortens
  it, although the comment on the good branch says that it is halved for every ten seconds in good mode;
  every drop from good to bad doubles it, however long the connection was good, for \<open>last_bad_time\<close> is set
  to the present before it is compared with ten seconds. Only \<open>reset\<close> brings it back to one second.\<close>

theorem delay_only_grows:
  assumes "binary_invar r" "binary_update rtt loss c r = Some (r', c')"
  shows "delay_until_good_mode r \<le> delay_until_good_mode r' \<and>
    (bl_mode r = Good \<and> rtt_threshold r < rtt \<and> c 1 < c 0 + 10 * 1000000000 \<longrightarrow>
       delay_until_good_mode r' = min (delay_until_good_mode r * 2) 60000) \<and>
    delay_until_good_mode (fst (binary_reset c' r')) = 1000"
proof -
  obtain r1 c1 where "run_updates binary_update [(rtt, loss)] c r = Some (r1, c1)"
    "delay_until_good_mode r \<le> delay_until_good_mode r1"
    by (rule binary_run [OF assms(1)])
  with assms(2) every_drop_doubles_delay [OF assms(2)] show ?thesis
    by (simp add: binary_reset_def delay_limits)
qed

theorem delay_only_grows_witness:
  "\<exists>r' c'. binary_update 300 (Fin 0) (\<lambda>n. 90000000000 + n) good_limiter = Some (r', c') \<and>
     delay_until_good_mode r' = min (4000 * 2) 60000"
proof -
  obtain r' c' where u: "binary_update 300 (Fin 0) (\<lambda>n. 90000000000 + n) good_limiter = Some (r', c')"
    using good_limiter_drops by blast
  have "binary_invar good_limiter" by (simp add: binary_invar_def good_limiter_def delay_limits)
  from delay_only_grows [OF this u] have "delay_until_good_mode r' = min (4000 * 2) 60000"
    by (simp add: good_limiter_def)
  with u show ?thesis by blast
qed

end
