(* ===== verification/Packet_Modifier.thy ===== *)
theory Packet_Modifier
  imports Config
begin

text \<open>
  Payload modification, the trait \<open>PacketModifier\<close> of \<open>src/traits/packet_modifier.rs\<close>: a hook for outgoing
  and one for incoming payloads, each answering with a replacement or with \<open>None\<close> for "as it is". Both
  have the default body \<open>None\<close>, which \<open>NoopPacketModifier\<close> of \<open>src/shared/noop_packet_modifier.rs\<close> keeps.
  The locale states what makes a modifier safe to use on a connection: what one end makes of a payload,
  the other end undoes.
\<close>

record 'm packet_modifier =
  pm_new :: "config \<Rightarrow> 'm"
  pm_outgoing :: "bytes \<Rightarrow> 'm \<Rightarrow> bytes option \<times> 'm"
  pm_incoming :: "bytes \<Rightarrow> 'm \<Rightarrow> bytes option \<times> 'm"

text \<open>The default bodies of the trait's methods.\<close>

definition default_outgoing :: "bytes \<Rightarrow> 'm \<Rightarrow> bytes option \<times> 'm" where
  "default_outgoing payload m = (None, m)"

definition default_incoming :: "bytes \<Rightarrow> 'm \<Rightarrow> bytes option \<times> 'm" where
  "default_incoming payload m = (None, m)"

datatype noop_packet_modifier = NoopPacketModifier

definition noop_new :: "config \<Rightarrow> noop_packet_modifier" where
  "noop_new config = NoopPacketModifier"

definition noop_modifier :: "noop_packet_modifier packet_modifier" where
  "noop_modifier =
     \<lparr>pm_new = noop_new, pm_outgoing = default_outgoing, pm_incoming = default_incoming\<rparr>"

text \<open>The payload a connection goes on with after asking a hook.\<close>

definition payload_after :: "bytes option \<Rightarrow> bytes \<Rightarrow> bytes" where
  "payload_after replacement payload = (case replacement of Some p \<Rightarrow> p | None \<Rightarrow> payload)"

lemma payload_after_simps [simp]:
  "payload_after None p = p" "payload_after (Some p') p = p'"
  by (simp_all add: payload_after_def)

locale inverse_modifier =
  fixes M :: "'m packet_modifier" and paired :: "'m \<Rightarrow> 'm \<Rightarrow> bool"
  assumes paired_new: "paired (pm_new M config) (pm_new M config)"
    and inverse:
      "paired m m' \<Longrightarrow> pm_outgoing M p m = (out, m1) \<Longrightarrow>
       pm_incoming M (payload_after out p) m' = (in', m1') \<Longrightarrow>
       payload_after in' (payload_after out p) = p \<and> paired m1 m1'"
begin

text \<open>A sequence of payloads sent by one end and received by the other in the same order.\<close>

fun carried :: "bytes list \<Rightarrow> 'm \<Rightarrow> 'm \<Rightarrow> bytes list" where
  "carried [] m m' = []"
| "carried (p # ps) m m' =
     (let (out, m1) = pm_outgoing M p m;
          wire = payload_after out p;
          (in', m1') = pm_incoming M wire m'
      in payload_after in' wire # carried ps m1 m1')"

lemma carried_id: "paired m m' \<Longrightarrow> carried ps m m' = ps"
proof (induction ps arbitrary: m m')
  case (Cons p ps)
  obtain out m1 where o: "pm_outgoing M p m = (out, m1)" by force
  obtain in' m1' where i: "pm_incoming M (payload_after out p) m' = (in', m1')" by force
  from inverse [OF Cons.prems o i] Cons.IH show ?case by (simp add: o i)
qed simp

end

interpretation noop: inverse_modifier noop_modifier "\<lambda>_ _. True"
  by unfold_locales (auto simp: noop_modifier_def default_outgoing_def default_incoming_def)

end
