(* ===== verification/Socket.thy ===== *)
theory Socket
  imports Config "HOL-Library.Stream"
begin

text \<open>
  Sockets: the trait \<open>Socket\<close> of \<open>src/traits/socket.rs\<close> as a record of operations with the locale of its
  laws, and \<open>UdpSocket\<close> of \<open>src/shared/udp_socket.rs\<close> over the standard library's non-blocking UDP
  socket. The latter is modelled as documented: \<open>recv_from\<close> gives the next datagram, cut to the length of
  the buffer, or an error; \<open>send_to\<close> hands a datagram to the network or fails. What arrives and which
  calls fail is the network's choice, part of the socket's state.
\<close>

datatype socket_addr =
    V4 "u8 \<times> u8 \<times> u8 \<times> u8" u16
  | V6 "u16 list" u16

datatype io_error = AddrNotAvailable | NotFound | NotConnected | AlreadyExists | WouldBlock | OtherError nat

datatype try_recv_error = Empty | Disconnected

subsection \<open>The trait\<close>

record 's socket =
  sock_new :: "socket_addr \<Rightarrow> nat \<Rightarrow> io_error + 's"
  sock_try_recv :: "'s \<Rightarrow> (try_recv_error + socket_addr \<times> bytes) \<times> 's"
  sock_send_to :: "bytes \<Rightarrow> socket_addr \<Rightarrow> 's \<Rightarrow> (io_error + nat) \<times> 's"
  sock_local_addr :: "'s \<Rightarrow> io_error + socket_addr"

text \<open>
  \<open>while let Ok((addr, packet)) = socket.try_recv() { ... }\<close>, the receive loop of client and server, with
  the loop body as a function on the state it updates. It may run for ever on an arbitrary socket.
\<close>

partial_function (option) recv_loop ::
  "'s socket \<Rightarrow> (socket_addr \<Rightarrow> bytes \<Rightarrow> 'a \<Rightarrow> 'a option) \<Rightarrow> 's \<Rightarrow> 'a \<Rightarrow> ('a \<times> 's) option" where
  "recv_loop S body s a =
     (case sock_try_recv S s of
        (Inl e, s') \<Rightarrow> Some (a, s')
      | (Inr p, s') \<Rightarrow>
          (case body (fst p) (snd p) a of
             None \<Rightarrow> None
           | Some a' \<Rightarrow> recv_loop S body s' a'))"

declare recv_loop.simps [simp del]

text \<open>What every run of the body keeps, the loop keeps.\<close>

lemma recv_loop_invar:
  assumes "recv_loop S body s a = Some r" "P a"
    and "\<forall>addr packet a a'. P a \<longrightarrow> body addr packet a = Some a' \<longrightarrow> P a'"
  shows "P (fst r)"
proof -
  have "(\<forall>addr packet a a'. P a \<longrightarrow> body addr packet a = Some a' \<longrightarrow> P a') \<longrightarrow> P a \<longrightarrow> P (fst r)"
    using assms(1)
  proof (rule recv_loop.raw_induct [rotated], goal_cases)
    case (1 loop S body s a r)
    show ?case
    proof (intro impI)
      assume b: "\<forall>addr packet a a'. P a \<longrightarrow> body addr packet a = Some a' \<longrightarrow> P a'" and a: "P a"
      obtain result s' where r: "sock_try_recv S s = (result, s')" by force
      show "P (fst r)"
      proof (cases result)
        case (Inl e)
        with 1(2) r a show ?thesis by auto
      next
        case (Inr p)
        with 1(2) r obtain a' where "body (fst p) (snd p) a = Some a'" "loop S body s' a' = Some r"
          by (auto split: option.splits)
        with 1(1) a b show ?thesis by blast
      qed
    qed
  qed
  with assms(2,3) show ?thesis by blast
qed
text \<open>
  The packets a socket delivers before it reports that there are no more, and the loop as a run of its body
  over them.
\<close>

inductive delivers :: "'s socket \<Rightarrow> 's \<Rightarrow> (socket_addr \<times> bytes) list \<Rightarrow> 's \<Rightarrow> bool" for S :: "'s socket" where
  dl_end: "sock_try_recv S s = (Inl e, s') \<Longrightarrow> delivers S s [] s'"
| dl_packet: "sock_try_recv S s = (Inr p, s1) \<Longrightarrow> delivers S s1 ps s' \<Longrightarrow> delivers S s (p # ps) s'"

fun run_body :: "(socket_addr \<Rightarrow> bytes \<Rightarrow> 'a \<Rightarrow> 'a option) \<Rightarrow> (socket_addr \<times> bytes) list \<Rightarrow> 'a \<Rightarrow> 'a option" where
  "run_body body [] a = Some a"
| "run_body body (p # ps) a = do { a \<leftarrow> body (fst p) (snd p) a; run_body body ps a }"

lemma recv_loop_delivers:
  "delivers S s ps s' \<Longrightarrow> recv_loop S body s a = map_option (\<lambda>a'. (a', s')) (run_body body ps a)"
proof (induction arbitrary: a rule: delivers.induct)
  case (dl_end s e s')
  then show ?case by (subst recv_loop.simps) simp
next
  case (dl_packet s p s1 ps s')
  then show ?case by (subst recv_loop.simps) (auto split: option.splits)
qed

text \<open>
  The laws: \<open>invar\<close> holds when the packets that can be received now come to an end, and \<open>pending\<close> bounds how
  many they are, so that a receive loop ends; no packet is longer than the size the socket was made for; \<open>sent\<close>
  is what went out.
\<close>

locale socket_laws =
  fixes S :: "'s socket"
    and invar :: "'s \<Rightarrow> bool"
    and capacity :: "'s \<Rightarrow> nat"
    and pending :: "'s \<Rightarrow> nat"
    and sent :: "'s \<Rightarrow> (bytes \<times> socket_addr) list"
  assumes new_capacity: "sock_new S addr max_size = Inr s \<Longrightarrow> capacity s = max_size"
    and recv_keeps: "sock_try_recv S s = (result, s') \<Longrightarrow> capacity s' = capacity s \<and> sent s' = sent s"
    and recv_packet: "invar s \<Longrightarrow> sock_try_recv S s = (Inr (addr, packet), s') \<Longrightarrow>
      invar s' \<and> length packet \<le> capacity s \<and> pending s' < pending s"
    and send_keeps: "sock_send_to S packet addr s = (written, s') \<Longrightarrow>
      invar s' = invar s \<and> capacity s' = capacity s \<and> pending s' = pending s"
    and send_ok: "sock_send_to S packet addr s = (Inr n, s') \<Longrightarrow> sent s' = sent s @ [(packet, addr)]"
    and send_failed: "sock_send_to S packet addr s = (Inl e, s') \<Longrightarrow> sent s' = sent s"
begin

text \<open>The receive loop ends when its body returns on packets of at most the socket's capacity.\<close>

lemma recv_loop_total:
  assumes body: "\<And>addr packet a. P a \<Longrightarrow> length packet \<le> cap \<Longrightarrow> \<exists>a'. body addr packet a = Some a' \<and> P a'"
    and "invar s" "capacity s = cap" "P a"
  shows "\<exists>a' s'. recv_loop S body s a = Some (a', s') \<and> P a' \<and>
    capacity s' = cap \<and> sent s' = sent s"
  using assms(2-)
proof (induction "pending s" arbitrary: s a rule: less_induct)
  case less
  obtain result s' where r: "sock_try_recv S s = (result, s')" by force
  show ?case
  proof (cases result)
    case (Inl e)
    with r recv_keeps [OF r] less.prems show ?thesis
      by (subst recv_loop.simps) simp
  next
    case (Inr p)
    obtain addr packet where p: "p = (addr, packet)" by force
    have s': "invar s'" "capacity s' = capacity s" "sent s' = sent s" "length packet \<le> capacity s"
      "pending s' < pending s"
      using recv_keeps [OF r] recv_packet [OF less.prems(1)] r Inr p by auto
    obtain a' where a': "body addr packet a = Some a'" "P a'"
      using body [OF less.prems(3)] s'(4) less.prems(2) by metis
    have "recv_loop S body s a = recv_loop S body s' a'"
      using r Inr p a' by (subst recv_loop.simps) simp
    with less.hyps [OF s'(5,1) _ a'(2)] s' less.prems(2) show ?thesis by simp
  qed
qed

end

subsection \<open>The standard library's UDP socket\<close>

text \<open>
  What a receive call finds, call by call: a datagram or an error such as "would block". It is the network's choice
  and goes on for ever, so that a socket may never run dry. On a silent network every call would block.
\<close>

type_synonym arrivals = "(io_error + socket_addr \<times> bytes) stream"

abbreviation silence :: arrivals where
  "silence \<equiv> sconst (Inl WouldBlock)"

record net_socket =
  ns_addr :: "io_error + socket_addr"
  inbound :: arrivals
  outbound :: "(bytes \<times> socket_addr) list"
  send_faults :: "io_error option list"

text \<open>\<open>recv_from(&mut buffer)\<close>: the received prefix overwrites the start of the buffer.\<close>

definition recv_from :: "bytes \<Rightarrow> net_socket \<Rightarrow> (io_error + nat \<times> socket_addr) \<times> bytes \<times> net_socket" where
  "recv_from buffer s =
     (let s' = s\<lparr>inbound := stl (inbound s)\<rparr>
      in (case shd (inbound s) of
            Inl e \<Rightarrow> (Inl e, buffer, s')
          | Inr (src, datagram) \<Rightarrow>
              (let received = take (length buffer) datagram
               in (Inr (length received, src), received @ drop (length received) buffer, s'))))"

definition net_send_to :: "bytes \<Rightarrow> socket_addr \<Rightarrow> net_socket \<Rightarrow> (io_error + nat) \<times> net_socket" where
  "net_send_to packet addr s =
     (case send_faults s of
        Some e # rest \<Rightarrow> (Inl e, s\<lparr>send_faults := rest\<rparr>)
      | faults \<Rightarrow>
          (Inr (length packet), s\<lparr>outbound := outbound s @ [(packet, addr)], send_faults := drop 1 faults\<rparr>))"

text \<open>
  The calls to the operating system that make a socket; both may fail. What \<open>local_addr\<close> of the standard library
  answers, which may be an error too, is the field \<open>ns_addr\<close> of the socket.
\<close>

record os_calls =
  os_bind :: "socket_addr \<Rightarrow> io_error + net_socket"
  os_set_nonblocking :: "net_socket \<Rightarrow> io_error + net_socket"

subsection \<open>\<open>UdpSocket\<close>\<close>

record udp_socket =
  us_socket :: net_socket
  us_buffer :: bytes

abbreviation waiting :: "udp_socket \<Rightarrow> arrivals" where
  "waiting s \<equiv> inbound (us_socket s)"

definition udp_new :: "os_calls \<Rightarrow> socket_addr \<Rightarrow> nat \<Rightarrow> io_error + udp_socket" where
  "udp_new os address max_packet_size =
     (case os_bind os address of
        Inl e \<Rightarrow> Inl e
      | Inr s \<Rightarrow>
          (case os_set_nonblocking os s of
             Inl e \<Rightarrow> Inl e
           | Inr s \<Rightarrow> Inr \<lparr>us_socket = s, us_buffer = replicate max_packet_size 0\<rparr>))"

definition udp_try_recv :: "udp_socket \<Rightarrow> (try_recv_error + socket_addr \<times> bytes) \<times> udp_socket" where
  "udp_try_recv s =
     (case recv_from (us_buffer s) (us_socket s) of
        (Inr (len, src), buffer, net) \<Rightarrow> (Inr (src, take len buffer), \<lparr>us_socket = net, us_buffer = buffer\<rparr>)
      | (Inl _, buffer, net) \<Rightarrow> (Inl Empty, \<lparr>us_socket = net, us_buffer = buffer\<rparr>))"

definition udp_send_to :: "bytes \<Rightarrow> socket_addr \<Rightarrow> udp_socket \<Rightarrow> (io_error + nat) \<times> udp_socket" where
  "udp_send_to packet addr s =
     (case net_send_to packet addr (us_socket s) of (result, net) \<Rightarrow> (result, s\<lparr>us_socket := net\<rparr>))"

definition udp_local_addr :: "udp_socket \<Rightarrow> io_error + socket_addr" where
  "udp_local_addr s = ns_addr (us_socket s)"

definition udp_ops :: "os_calls \<Rightarrow> udp_socket socket" where
  "udp_ops os =
     \<lparr>sock_new = udp_new os, sock_try_recv = udp_try_recv, sock_send_to = udp_send_to, sock_local_addr = udp_local_addr\<rparr>"

lemmas udp_recv_eval = udp_ops_def udp_try_recv_def recv_from_def Let_def

text \<open>An operating system without faults, for the examples: it binds any address, nothing has been sent yet.\<close>

definition fresh_os :: "arrivals \<Rightarrow> io_error option list \<Rightarrow> os_calls" where
  "fresh_os arrivals faults =
     \<lparr>os_bind = (\<lambda>addr. Inr \<lparr>ns_addr = Inr addr, inbound = arrivals, outbound = [], send_faults = faults\<rparr>),
      os_set_nonblocking = Inr\<rparr>"

abbreviation idle_os :: os_calls where
  "idle_os \<equiv> fresh_os silence []"

text \<open>The receive loop ends when a call finds no datagram, and the first such call is as far away as \<open>pauses_in\<close> says.\<close>

definition pauses :: "udp_socket \<Rightarrow> bool" where
  "pauses s \<longleftrightarrow> (\<exists>n. isl (waiting s !! n))"

definition pauses_in :: "udp_socket \<Rightarrow> nat" where
  "pauses_in s = (LEAST n. isl (waiting s !! n))"

lemma udp_recv_packet:
  assumes "pauses s" "udp_try_recv s = (Inr (addr, packet), s')"
  shows "pauses s' \<and> length packet \<le> length (us_buffer s) \<and> pauses_in s' < pauses_in s"
proof -
  have w: "waiting s' = stl (waiting s)" "\<not> isl (waiting s !! 0)" "length packet \<le> length (us_buffer s)"
    using assms(2) by (auto simp: udp_try_recv_def recv_from_def Let_def split: sum.splits)
  obtain n where n: "isl (waiting s !! n)" using assms(1) by (auto simp: pauses_def)
  then have "pauses_in s = Suc (LEAST n. isl (waiting s !! Suc n))"
    unfolding pauses_in_def by (rule Least_Suc) (rule w(2))
  moreover have "\<exists>m. n = Suc m" using n w(2) by (cases n) auto
  ultimately show ?thesis using n w(1,3) by (auto simp: pauses_def pauses_in_def)
qed

interpretation udp: socket_laws "udp_ops os" pauses "\<lambda>s. length (us_buffer s)" pauses_in
  "\<lambda>s. outbound (us_socket s)" for os
proof (unfold_locales, goal_cases)
  case (3 s addr packet s')
  then show ?case by (intro udp_recv_packet) (simp_all add: udp_ops_def)
qed (auto simp: udp_ops_def udp_new_def udp_try_recv_def udp_send_to_def recv_from_def net_send_to_def pauses_def
    pauses_in_def Let_def split: list.splits sum.splits option.splits prod.splits)

text \<open>When every call finds a datagram, the loop does not return.\<close>

lemma endless_arrivals:
  assumes "\<not> pauses s"
  shows "recv_loop (udp_ops os) body s a = None"
proof (rule ccontr)
  assume "recv_loop (udp_ops os) body s a \<noteq> None"
  then obtain r where "recv_loop (udp_ops os) body s a = Some r" by blast
  moreover have "recv_loop S body s a = Some r \<Longrightarrow> S = udp_ops os \<longrightarrow> pauses s" for S
  proof (erule recv_loop.raw_induct [rotated], goal_cases)
    case (1 loop S body s a r)
    show ?case
    proof
      assume S: "S = udp_ops os"
      show "pauses s"
      proof (cases "isl (shd (waiting s))")
        case True
        then show ?thesis unfolding pauses_def by (intro exI [of _ 0]) simp
      next
        case False
        then obtain p where p: "shd (waiting s) = Inr p" by (cases "shd (waiting s)") auto
        obtain result s' where r: "sock_try_recv S s = (result, s')" by force
        then have s': "isl result = False" "waiting s' = stl (waiting s)"
          by (auto simp: S udp_recv_eval p split: prod.splits)
        then obtain q where q: "result = Inr q" by (cases result) auto
        from 1(2) obtain a' where "loop S body s' a' = Some r" by (auto simp: r q split: option.splits)
        from 1(1) [OF this] S have "pauses s'" by simp
        then obtain n where "isl (waiting s' !! n)" unfolding pauses_def by blast
        then show ?thesis unfolding pauses_def s'(2) by (intro exI [of _ "Suc n"]) simp
      qed
    qed
  qed
  ultimately show False using assms by blast
qed

text \<open>A received packet is exactly the datagram cut to the configured maximum; nothing of an earlier
  packet that is still in the reused buffer is ever passed on.\<close>

lemma udp_receives_datagram:
  assumes "shd (waiting s) = Inr (src, datagram)"
  shows "fst (udp_try_recv s) = Inr (src, take (length (us_buffer s)) datagram) \<and>
    length (us_buffer (snd (udp_try_recv s))) = length (us_buffer s)"
  using assms by (simp add: udp_try_recv_def recv_from_def Let_def min_def)

end
