(* ===== verification/Connection.thy ===== *)
theory Connection
  imports Message_Queue Rate_Limiter Packet_Modifier Socket
begin

text \<open>
  The virtual connection of \<open>src/shared/connection.rs\<close>: packet header, sequence numbers and the ack
  bitfield, loss detection, the connection's states and events. Rate limiter, packet modifier and socket
  are the type parameters of the source and are passed as records of operations. This theory holds the
  state and every operation; the ones after it prove their properties.
\<close>

definition MAX_ACK_BITS :: u32 where
  "MAX_ACK_BITS = 32"

definition MAX_SEQ_NUMBER :: u32 where
  "MAX_SEQ_NUMBER = 256"

definition PACKET_HEADER_SIZE :: nat where
  "PACKET_HEADER_SIZE = 14"

definition CLOSURE_PACKET_DATA :: bytes where
  "CLOSURE_PACKET_DATA = [0, 128, 85, 85, 85, 85]"

subsection \<open>State\<close>

datatype packet_state = Unknown | Acked | Lost_Packet

record sent_packet_ack =
  sp_seq :: u32
  sp_time :: instant
  sp_state :: packet_state
  sp_packet :: "bytes option"

datatype connection_state = Connecting | Connected | FailedToConnect | Lost | Closing | Closed

text \<open>The variants of \<open>ConnectionEvent\<close>; the suffix keeps them apart from the states.\<close>

datatype connection_event =
    Connected_Event
  | FailedToConnect_Event
  | Lost_Event bool
  | Closed_Event bool
  | Message_Event bytes
  | PacketLost_Event bytes
  | CongestionStateChanged_Event bool

datatype connection_id = ConnectionID (id_word: u32)

text \<open>The derived order on identifiers is the order of the wrapped integer.\<close>

instantiation connection_id :: linorder
begin

definition less_eq_connection_id :: "connection_id \<Rightarrow> connection_id \<Rightarrow> bool" where
  "less_eq_connection_id a b \<longleftrightarrow> id_word a \<le> id_word b"

definition less_connection_id :: "connection_id \<Rightarrow> connection_id \<Rightarrow> bool" where
  "less_connection_id a b \<longleftrightarrow> id_word a < id_word b"

instance
  by standard
    (auto simp: less_eq_connection_id_def less_connection_id_def intro: connection_id.expand)

end

record ('r, 'm) connection =
  cn_config :: config
  random_id :: connection_id
  cn_state :: connection_state
  local_address :: socket_addr
  peer_address :: socket_addr
  remote_seq_number :: u32
  local_seq_number :: u32
  smoothed_rtt :: f32
  last_receive_time :: instant
  last_send_time :: instant
  recv_ack_queue :: "u32 list"
  sent_ack_queue :: "sent_packet_ack list"
  sent_packets :: u32
  recv_packets :: u32
  lost_packets :: u32
  acked_packets :: u32
  cn_queue :: message_queue
  cn_limiter :: 'r
  cn_modifier :: 'm
  cn_events :: "connection_event list"

definition connection_new ::
  "config \<Rightarrow> socket_addr \<Rightarrow> socket_addr \<Rightarrow> 'r \<Rightarrow> 'm \<Rightarrow> u32 \<Rightarrow> clock \<Rightarrow> ('r, 'm) connection \<times> clock" where
  "connection_new config local_addr peer_addr limiter modifier random c =
     (\<lparr>cn_config = config, random_id = ConnectionID random, cn_state = Connecting,
       local_address = local_addr, peer_address = peer_addr,
       remote_seq_number = 0, local_seq_number = 0, smoothed_rtt = Fin 0,
       last_receive_time = c 0, last_send_time = c 1,
       recv_ack_queue = [], sent_ack_queue = [],
       sent_packets = 0, recv_packets = 0, lost_packets = 0, acked_packets = 0,
       cn_queue = mq_new config, cn_limiter = limiter, cn_modifier = modifier, cn_events = []\<rparr>,
      clock_skip 2 c)"

definition id_from_packet :: "config \<Rightarrow> bytes \<Rightarrow> connection_id option" where
  "id_from_packet config packet =
     (if 8 \<le> length packet \<and> take 4 packet = header_bytes (protocol_header config)
      then Some (ConnectionID (u32_of_bytes (packet ! 4) (packet ! 5) (packet ! 6) (packet ! 7)))
      else None)"

definition connection_open :: "('r, 'm) connection \<Rightarrow> bool" where
  "connection_open c \<longleftrightarrow>
     (case cn_state c of Closing \<Rightarrow> True | Connecting \<Rightarrow> True | Connected \<Rightarrow> True | _ \<Rightarrow> False)"

definition conn_id :: "('r, 'm) connection \<Rightarrow> connection_id" where
  "conn_id c = random_id c"

definition conn_state :: "('r, 'm) connection \<Rightarrow> connection_state" where
  "conn_state c = cn_state c"

definition conn_local_addr :: "('r, 'm) connection \<Rightarrow> socket_addr" where
  "conn_local_addr c = local_address c"

definition conn_peer_addr :: "('r, 'm) connection \<Rightarrow> socket_addr" where
  "conn_peer_addr c = peer_address c"

definition connection_congested :: "'r rate_limiter \<Rightarrow> ('r, 'm) connection \<Rightarrow> bool" where
  "connection_congested R c = rl_congested R (cn_limiter c)"

definition set_id :: "connection_id \<Rightarrow> ('r, 'm) connection \<Rightarrow> ('r, 'm) connection" where
  "set_id i c = c\<lparr>random_id := i\<rparr>"

definition rtt :: "('r, 'm) connection \<Rightarrow> u32" where
  "rtt c = f32_to_u32 (f32_ceil (smoothed_rtt c))"

definition packet_loss :: "('r, 'm) connection \<Rightarrow> f32" where
  "packet_loss c =
     f32_mul (f32_div (Fin 100) (f32_of_nat (unat (max (sent_packets c) 1))))
       (f32_of_nat (unat (lost_packets c)))"

definition set_peer_addr :: "socket_addr \<Rightarrow> ('r, 'm) connection \<Rightarrow> ('r, 'm) connection" where
  "set_peer_addr addr c = c\<lparr>peer_address := addr\<rparr>"

definition connection_set_config :: "config \<Rightarrow> ('r, 'm) connection \<Rightarrow> ('r, 'm) connection" where
  "connection_set_config config c =
     c\<lparr>cn_config := config, cn_queue := mq_set_config config (cn_queue c)\<rparr>"

definition connection_send ::
  "message_kind \<Rightarrow> bytes \<Rightarrow> ('r, 'm) connection \<Rightarrow> ('r, 'm) connection" where
  "connection_send kind payload c = c\<lparr>cn_queue := mq_send kind payload (cn_queue c)\<rparr>"

definition push_event :: "connection_event \<Rightarrow> ('r, 'm) connection \<Rightarrow> ('r, 'm) connection" where
  "push_event e c = c\<lparr>cn_events := cn_events c @ [e]\<rparr>"

text \<open>\<open>events()\<close>: the received messages become events, and the list of events is drained.\<close>

definition connection_events :: "('r, 'm) connection \<Rightarrow> connection_event list \<times> ('r, 'm) connection" where
  "connection_events c =
     (let (payloads, rest) = drain_received (recv_queue (cn_queue c))
      in (cn_events c @ map Message_Event payloads,
          c\<lparr>cn_queue := (cn_queue c)\<lparr>recv_queue := rest\<rparr>, cn_events := []\<rparr>))"

subsection \<open>Static helpers\<close>

definition moving_average :: "f32 \<Rightarrow> duration \<Rightarrow> f32" where
  "moving_average a d =
     (let b = f32_add (f32_mul (f32_of_nat (d div 1000000000)) (Fin 1000))
                (f32_of_nat (d mod 1000000000 div 1000000))
      in f32_max (f32_sub a (f32_mul (f32_sub a b) (f32_round (1 / 10)))) (Fin 0))"

definition seq_bit_index :: "u32 \<Rightarrow> u32 \<Rightarrow> u32 option" where
  "seq_bit_index seq ack =
     (if seq > ack then
        do { above \<leftarrow> checked_sub_u32 (MAX_SEQ_NUMBER - 1) seq; checked_add_u32 ack above }
      else do { below \<leftarrow> checked_sub_u32 ack 1; checked_sub_u32 below seq })"

definition seq_is_more_recent :: "u32 \<Rightarrow> u32 \<Rightarrow> bool" where
  "seq_is_more_recent a b \<longleftrightarrow>
     a > b \<and> a - b \<le> MAX_SEQ_NUMBER div 2 \<or> b > a \<and> b - a > MAX_SEQ_NUMBER div 2"

definition seq_was_acked :: "u32 \<Rightarrow> u32 \<Rightarrow> u32 \<Rightarrow> bool option" where
  "seq_was_acked seq ack bitfield =
     (if seq = ack then Some True
      else do {
        b \<leftarrow> seq_bit_index seq ack;
        Some (b < MAX_ACK_BITS \<and> bitfield AND push_bit (unat b) 1 \<noteq> 0)
      })"

subsection \<open>Receiving\<close>

definition update_receive_state :: "bytes \<Rightarrow> ('r, 'm) connection \<Rightarrow> bool \<times> ('r, 'm) connection" where
  "update_receive_state packet c =
     (if take 4 packet = header_bytes (protocol_header (cn_config c)) then
        (case cn_state c of
           Closing \<Rightarrow> (True, c)
         | Connecting \<Rightarrow> (True, push_event Connected_Event (c\<lparr>cn_state := Connected, lost_packets := 0\<rparr>))
         | Connected \<Rightarrow>
             if take 6 (drop 8 packet) = CLOSURE_PACKET_DATA
             then (False, push_event (Closed_Event True) (c\<lparr>cn_state := Closed\<rparr>))
             else (seq_is_more_recent (ucast (packet ! 8)) (remote_seq_number c), c)
         | _ \<Rightarrow> (False, c))
      else (False, c))"

text \<open>The body of the loop over the packets pending acknowledgment.\<close>

definition process_ack ::
  "u32 \<Rightarrow> u32 \<Rightarrow> sent_packet_ack \<Rightarrow> ('r, 'm) connection \<Rightarrow> (sent_packet_ack \<times> ('r, 'm) connection) option" where
  "process_ack ack_seq bitfield p c =
     do {
       acked \<leftarrow> seq_was_acked (sp_seq p) ack_seq bitfield;
       let elapsed = last_receive_time c - sp_time p;
       if acked then
         do {
           millis \<leftarrow> checked_div 1000 (send_rate (cn_config c));
           let tick_delay = from_millis millis;
           Some (p\<lparr>sp_state := Acked\<rparr>,
                 c\<lparr>acked_packets := acked_packets c + 1,
                   smoothed_rtt := moving_average (smoothed_rtt c) (max elapsed tick_delay - tick_delay)\<rparr>)
         }
       else if elapsed > packet_drop_threshold (cn_config c) then
         (let c = c\<lparr>lost_packets := lost_packets c + 1\<rparr>;
              p' = p\<lparr>sp_state := Lost_Packet, sp_packet := None\<rparr>
          in case sp_packet p of
               None \<Rightarrow> Some (p', c)
             | Some lost \<Rightarrow>
                 do {
                   payload \<leftarrow> slice_from PACKET_HEADER_SIZE lost;
                   Some (p', push_event (PacketLost_Event payload)
                               (c\<lparr>cn_queue := mq_lost_packet payload (cn_queue c)\<rparr>))
                 })
       else Some (p, c)
     }"

fun process_acks ::
  "u32 \<Rightarrow> u32 \<Rightarrow> sent_packet_ack list \<Rightarrow> ('r, 'm) connection \<Rightarrow>
     (sent_packet_ack list \<times> ('r, 'm) connection) option" where
  "process_acks ack_seq bitfield [] c = Some ([], c)"
| "process_acks ack_seq bitfield (p # ps) c =
     do {
       (p', c) \<leftarrow> process_ack ack_seq bitfield p c;
       (ps', c) \<leftarrow> process_acks ack_seq bitfield ps c;
       Some (p' # ps', c)
     }"

text \<open>The received sequence numbers, the latest first, no more than the bitfield has bits.\<close>

definition push_received :: "u32 \<Rightarrow> u32 list \<Rightarrow> u32 list" where
  "push_received seq queue =
     (let received = seq # queue
      in if length received > unat MAX_ACK_BITS then butlast received else received)"

definition receive_packet ::
  "'m packet_modifier \<Rightarrow> bytes \<Rightarrow> clock \<Rightarrow> ('r, 'm) connection \<Rightarrow> (bool \<times> ('r, 'm) connection \<times> clock) option" where
  "receive_packet M packet clk c =
     (if length packet < PACKET_HEADER_SIZE then Some (False, c, clk)
      else
        let (accepted, c) = update_receive_state packet c
        in if \<not> accepted then Some (False, c, clk)
           else
             do {
               let c = c\<lparr>last_receive_time := clk 0, remote_seq_number := ucast (packet ! 8)\<rparr>;
               let ack_seq_number = ucast (packet ! 9);
               let bitfield = u32_of_bytes (packet ! 10) (packet ! 11) (packet ! 12) (packet ! 13);
               (acks, c) \<leftarrow> process_acks ack_seq_number bitfield (sent_ack_queue c) c;
               let (replacement, modifier) = pm_incoming M (drop PACKET_HEADER_SIZE packet) (cn_modifier c);
               let payload = payload_after replacement (drop PACKET_HEADER_SIZE packet);
               Some (True,
                 c\<lparr>cn_modifier := modifier,
                   cn_queue := mq_receive_packet payload (cn_queue c),
                   sent_ack_queue := filter (\<lambda>p. sp_state p = Unknown) acks,
                   recv_ack_queue := push_received (remote_seq_number c) (recv_ack_queue c),
                   recv_packets := recv_packets c + 1\<rparr>,
                 clock_skip 1 clk)
             })"

subsection \<open>Sending\<close>

definition update_send_state :: "clock \<Rightarrow> ('r, 'm) connection \<Rightarrow> bool \<times> ('r, 'm) connection \<times> clock" where
  "update_send_state clk c =
     (let inactive_receive_time = clk 0 - last_receive_time c;
          inactive_send_time = clk 1 - last_send_time c;
          config = cn_config c;
          (go, c) =
            (case cn_state c of
               Connecting \<Rightarrow>
                 if inactive_receive_time > connection_init_threshold config
                 then (False, push_event FailedToConnect_Event (c\<lparr>cn_state := FailedToConnect\<rparr>))
                 else (True, c)
             | Connected \<Rightarrow>
                 if inactive_receive_time > connection_drop_threshold config
                 then (False, push_event (Lost_Event True) (c\<lparr>cn_state := Lost\<rparr>))
                 else if inactive_send_time > connection_drop_threshold config
                 then (False, push_event (Lost_Event False) (c\<lparr>cn_state := Lost\<rparr>))
                 else (True, c)
             | Closing \<Rightarrow>
                 if inactive_receive_time > connection_closing_threshold config
                 then (False, push_event (Closed_Event False) (c\<lparr>cn_state := Closed\<rparr>))
                 else (True, c)
             | _ \<Rightarrow> (False, c))
      in (go, c, clock_skip 2 clk))"

text \<open>The ack bitfield, built from the most recently received sequence numbers.\<close>

fun ack_bitfield :: "u32 \<Rightarrow> u32 list \<Rightarrow> u32 \<Rightarrow> u32 option" where
  "ack_bitfield remote [] bitfield = Some bitfield"
| "ack_bitfield remote (seq # seqs) bitfield =
     (if seq \<noteq> remote then
        do {
          b \<leftarrow> seq_bit_index seq remote;
          ack_bitfield remote seqs
            (if b < MAX_ACK_BITS then bitfield OR push_bit (unat b) 1 else bitfield)
        }
      else ack_bitfield remote seqs bitfield)"

definition id_bytes :: "connection_id \<Rightarrow> bytes" where
  "id_bytes i = u32_bytes (id_word i)"

text \<open>The packet before the packet modifier, and the queue after its messages are taken.\<close>

definition write_packet :: "('r, 'm) connection \<Rightarrow> (bytes \<times> message_queue) option" where
  "write_packet c =
     (let packet = header_bytes (protocol_header (cn_config c)) @ id_bytes (random_id c)
      in if cn_state c = Closing then Some (packet @ CLOSURE_PACKET_DATA, cn_queue c)
         else
           do {
             bitfield \<leftarrow> ack_bitfield (remote_seq_number c) (recv_ack_queue c) 0;
             let packet = packet @ [ucast (local_seq_number c), ucast (remote_seq_number c)] @ u32_bytes bitfield;
             available \<leftarrow> checked_sub (packet_max_size (cn_config c)) PACKET_HEADER_SIZE;
             mq_send_packet packet available (cn_queue c)
           })"

definition send_ack_required :: "u32 \<Rightarrow> ('r, 'm) connection \<Rightarrow> bool" where
  "send_ack_required seq c \<longleftrightarrow> (\<forall>p \<in> set (sent_ack_queue c). sp_seq p \<noteq> seq)"

text \<open>The part of \<open>send_packet\<close> after the rate limiter let the packet through.\<close>

definition transmit_packet ::
  "'m packet_modifier \<Rightarrow> 's socket \<Rightarrow> socket_addr \<Rightarrow> clock \<Rightarrow> ('r, 'm) connection \<Rightarrow> 's \<Rightarrow>
     (u32 \<times> ('r, 'm) connection \<times> 's \<times> clock) option" where
  "transmit_packet M S addr clk c s =
     do {
       (packet, queue) \<leftarrow> write_packet c;
       let c = c\<lparr>cn_queue := queue\<rparr>;
       payload \<leftarrow> slice_from PACKET_HEADER_SIZE packet;
       let (replacement, modifier) = pm_outgoing M payload (cn_modifier c);
       let c = c\<lparr>cn_modifier := modifier\<rparr>;
       let packet = take PACKET_HEADER_SIZE packet @ payload_after replacement payload;
       let (result, s) = sock_send_to S packet addr s;
       let (bytes_sent, c, clk) =
         (case result of
            Inr _ \<Rightarrow> (length packet, c\<lparr>last_send_time := clk 0\<rparr>, clock_skip 1 clk)
          | Inl _ \<Rightarrow> (0, c, clk));
       let (c, clk) =
         (if send_ack_required (local_seq_number c) c
          then (c\<lparr>sent_ack_queue := sent_ack_queue c @
                    [\<lparr>sp_seq = local_seq_number c, sp_time = clk 0, sp_state = Unknown,
                      sp_packet = Some packet\<rparr>]\<rparr>, clock_skip 1 clk)
          else (c, clk));
       next_seq \<leftarrow> checked_add_u32 (local_seq_number c) 1;
       Some (word_of_nat bytes_sent,
             c\<lparr>local_seq_number := (if next_seq = MAX_SEQ_NUMBER then 0 else next_seq),
               sent_packets := sent_packets c + 1,
               cn_queue := mq_dismiss (cn_queue c)\<rparr>,
             s, clk)
     }"

definition send_packet ::
  "'r rate_limiter \<Rightarrow> 'm packet_modifier \<Rightarrow> 's socket \<Rightarrow> socket_addr \<Rightarrow> clock \<Rightarrow> ('r, 'm) connection \<Rightarrow>
     's \<Rightarrow> (u32 \<times> ('r, 'm) connection \<times> 's \<times> clock) option" where
  "send_packet R M S addr clk c s =
     (let (go, c, clk) = update_send_state clk c
      in if \<not> go then Some (0, c, s, clk)
         else
           do {
             let congested = rl_congested R (cn_limiter c);
             (limiter, clk) \<leftarrow> rl_update R (rtt c) (packet_loss c) clk (cn_limiter c);
             let c = c\<lparr>cn_limiter := limiter\<rparr>;
             let c = (if congested \<noteq> rl_congested R limiter
                      then push_event (CongestionStateChanged_Event (\<not> congested)) c else c);
             if \<not> rl_should_send R limiter then Some (0, c, s, clk)
             else transmit_packet M S addr clk c s
           })"

subsection \<open>Reset and closing\<close>

definition connection_reset ::
  "'r rate_limiter \<Rightarrow> clock \<Rightarrow> ('r, 'm) connection \<Rightarrow> ('r, 'm) connection \<times> clock" where
  "connection_reset R clk c =
     (let (limiter, clk') = rl_reset R (clock_skip 2 clk) (cn_limiter c)
      in (c\<lparr>cn_state := Connecting, remote_seq_number := 0, local_seq_number := 0, smoothed_rtt := Fin 0,
            last_receive_time := clk 0, last_send_time := clk 1, recv_ack_queue := [], sent_ack_queue := [],
            sent_packets := 0, recv_packets := 0, lost_packets := 0, acked_packets := 0,
            cn_queue := mq_reset (cn_queue c), cn_limiter := limiter\<rparr>, clk'))"

definition connection_close :: "('r, 'm) connection \<Rightarrow> ('r, 'm) connection" where
  "connection_close c = c\<lparr>cn_state := Closing\<rparr>"

end
