(* ===== verification/Ticker.thy ===== *)
theory Ticker
  imports Config
begin

text \<open>
  The tick rate limiter of \<open>src/shared/ticker.rs\<close>: a server or client loop calls \<open>begin_tick\<close>, does its
  work and calls \<open>end_tick\<close>, which sleeps for the rest of the tick. Ticks that take too long build up an
  overflow, which later ticks pay back by sleeping less. The sleep is the first component of the result
  of \<open>end_tick\<close>, in nanoseconds. Theorems: the time accounting is exact over any run of ticks, and which
  recovery rates make it panic.
\<close>

record ticker =
  tick_start :: instant
  tick_overflow :: nat
  overflow_recovery :: bool
  overflow_recovery_rate :: f32
  tick_delay :: nat

definition ticker_new :: "config \<Rightarrow> clock \<Rightarrow> (ticker \<times> clock) option" where
  "ticker_new config c =
     do {
       delay \<leftarrow> checked_div 1000000000 (send_rate config);
       Some (\<lparr>tick_start = c 0, tick_overflow = 0,
              overflow_recovery = tick_overflow_recovery config,
              overflow_recovery_rate = tick_overflow_recovery_rate config,
              tick_delay = delay\<rparr>, clock_skip 1 c)
     }"

definition ticker_set_config :: "config \<Rightarrow> ticker \<Rightarrow> ticker option" where
  "ticker_set_config config t =
     do {
       delay \<leftarrow> checked_div 1000000000 (send_rate config);
       Some (t\<lparr>overflow_recovery := tick_overflow_recovery config,
               overflow_recovery_rate := tick_overflow_recovery_rate config,
               tick_delay := delay\<rparr>)
     }"

definition begin_tick :: "clock \<Rightarrow> ticker \<Rightarrow> ticker \<times> clock" where
  "begin_tick c t = (t\<lparr>tick_start := c 0\<rparr>, clock_skip 1 c)"

definition ticker_reset :: "clock \<Rightarrow> ticker \<Rightarrow> ticker \<times> clock" where
  "ticker_reset c t = (t\<lparr>tick_start := c 0, tick_overflow := 0\<rparr>, clock_skip 1 c)"

text \<open>\<open>nanos_from_duration\<close>: whole seconds and the nanoseconds below a second, added up again.\<close>

definition nanos_from_duration :: "duration \<Rightarrow> nat" where
  "nanos_from_duration d = d div 1000000000 * 1000 * 1000000 + d mod 1000000000"

lemma nanos_from_duration_id [simp]: "nanos_from_duration d = d"
  by (simp add: nanos_from_duration_def mult.assoc)

definition correction :: "nat \<Rightarrow> f32 \<Rightarrow> int" where
  "correction max_correction rate =
     min (f32_to_i64 (f32_mul (f32_of_nat max_correction) rate)) (int max_correction)"

definition recover_overflow :: "nat \<Rightarrow> nat \<Rightarrow> ticker \<Rightarrow> (nat \<times> ticker) option" where
  "recover_overflow time_taken reduction t =
     do {
       late \<leftarrow> checked_sub time_taken reduction;
       let overflow = tick_overflow t + late;
       max_correction \<leftarrow> checked_sub (tick_delay t) reduction;
       let reduced_overflow =
         nat (max 0 (int overflow - correction max_correction (overflow_recovery_rate t)));
       recovered \<leftarrow> checked_sub overflow reduced_overflow;
       Some (reduction + recovered, t\<lparr>tick_overflow := reduced_overflow\<rparr>)
     }"

definition end_tick :: "clock \<Rightarrow> ticker \<Rightarrow> (duration \<times> ticker \<times> clock) option" where
  "end_tick c t =
     do {
       let time_taken = nanos_from_duration (c 0 - tick_start t);
       let reduction = min time_taken (tick_delay t);
       (reduction, t) \<leftarrow>
         (if overflow_recovery t then recover_overflow time_taken reduction t else Some (reduction, t));
       sleep \<leftarrow> checked_sub (tick_delay t) reduction;
       Some (unat (word_of_nat sleep :: u32), t, clock_skip 1 c)
     }"

subsection \<open>The accounting of one tick\<close>

lemma correction_bounds:
  "correction n rate \<le> int n" "f32_nonneg rate \<Longrightarrow> 0 \<le> correction n rate"
  by (simp_all add: correction_def f32_nonneg_to_i64 f32_nonneg_mul)

lemma reduced_by: "0 \<le> k \<Longrightarrow> nat (max 0 (int v - k)) = v - min v (nat k)"
  by linarith

lemma recover_overflow_spec:
  assumes "reduction \<le> time_taken" "reduction \<le> tick_delay t" "f32_nonneg (overflow_recovery_rate t)"
  obtains recovered where
    "recover_overflow time_taken reduction t =
       Some (reduction + recovered, t\<lparr>tick_overflow := tick_overflow t + (time_taken - reduction) - recovered\<rparr>)"
    "recovered \<le> tick_overflow t + (time_taken - reduction)" "reduction + recovered \<le> tick_delay t"
proof -
  let ?room = "tick_delay t - reduction" and ?overflow = "tick_overflow t + (time_taken - reduction)"
  let ?k = "correction ?room (overflow_recovery_rate t)"
  let ?recovered = "min ?overflow (nat ?k)"
  note k = correction_bounds(1) [of ?room "overflow_recovery_rate t"]
    correction_bounds(2) [OF assms(3), of ?room]
  have "recover_overflow time_taken reduction t =
      Some (reduction + ?recovered, t\<lparr>tick_overflow := ?overflow - ?recovered\<rparr>)"
    using assms(1,2) by (simp add: recover_overflow_def Let_def reduced_by [OF k(2)])
  then show thesis
    by (rule that) (use k assms(2) in linarith)+
qed

text \<open>
  With a delay below four seconds the sleep fits 32 bits. The time of the tick, worked and slept, plus
  the overflow before is the nominal delay plus the overflow after.
\<close>

definition ticker_ok :: "ticker \<Rightarrow> bool" where
  "ticker_ok t \<longleftrightarrow>
     overflow_recovery t \<and> f32_nonneg (overflow_recovery_rate t) \<and> tick_delay t < 2 ^ 32"

lemma tick_account:
  fixes a d ov r :: nat
  assumes "r \<le> ov + (a - min a d)" "min a d + r \<le> d"
  shows "a + (d - (min a d + r)) + ov = d + (ov + (a - min a d) - r)"
proof (cases "a \<le> d")
  case True
  then have "min a d = a" by simp
  with assms True show ?thesis by simp
next
  case False
  then have "min a d = d" by simp
  with assms False show ?thesis by simp
qed

lemma end_tick_spec:
  assumes "ticker_ok t"
  obtains sleep t' where "end_tick c t = Some (sleep, t', clock_skip 1 c)"
    "ticker_ok t'" "tick_delay t' = tick_delay t" "sleep \<le> tick_delay t - (c 0 - tick_start t)"
    "tick_overflow t = 0 \<Longrightarrow> sleep = tick_delay t - (c 0 - tick_start t)"
    "(c 0 - tick_start t) + sleep + tick_overflow t = tick_delay t + tick_overflow t'"
proof -
  let ?taken = "c 0 - tick_start t"
  let ?reduction = "min ?taken (tick_delay t)"
  have pre: "?reduction \<le> ?taken" "?reduction \<le> tick_delay t" "f32_nonneg (overflow_recovery_rate t)"
    using assms by (simp_all add: ticker_ok_def)
  obtain recovered where r:
    "recover_overflow ?taken ?reduction t =
       Some (?reduction + recovered, t\<lparr>tick_overflow := tick_overflow t + (?taken - ?reduction) - recovered\<rparr>)"
    "recovered \<le> tick_overflow t + (?taken - ?reduction)" "?reduction + recovered \<le> tick_delay t"
    by (rule recover_overflow_spec [OF pre])
  let ?sleep = "tick_delay t - (?reduction + recovered)"
  have "unat (word_of_nat ?sleep :: u32) = ?sleep"
    using assms by (simp add: ticker_ok_def unat_of_nat order_le_less_trans [OF diff_le_self])
  then have "end_tick c t = Some (?sleep,
      t\<lparr>tick_overflow := tick_overflow t + (?taken - ?reduction) - recovered\<rparr>, clock_skip 1 c)"
    using assms r(1,3) by (simp add: end_tick_def ticker_ok_def Let_def)
  then show thesis
  proof (rule that)
    have overflow: "tick_overflow (t\<lparr>tick_overflow := v\<rparr>) = v" for v by simp
    show "?taken + ?sleep + tick_overflow t = tick_delay t +
        tick_overflow (t\<lparr>tick_overflow := tick_overflow t + (?taken - ?reduction) - recovered\<rparr>)"
      unfolding overflow using r(2,3) by (rule tick_account)
    show "?sleep \<le> tick_delay t - ?taken"
      by linarith
    show "?sleep = tick_delay t - ?taken" if "tick_overflow t = 0"
      using that r(2) by linarith
  qed (use assms in \<open>simp_all add: ticker_ok_def\<close>)
qed

subsection \<open>Runs of ticks\<close>

text \<open>
  A loop of ticks; the clock gives the start of a tick and then its end. The first result is the sum
  of the time worked and slept.
\<close>

fun run_ticks :: "nat \<Rightarrow> clock \<Rightarrow> ticker \<Rightarrow> (duration \<times> ticker) option" where
  "run_ticks 0 c t = Some (0, t)"
| "run_ticks (Suc n) c t =
     do {
       let (t1, c1) = begin_tick c t;
       (sleep, t2, c2) \<leftarrow> end_tick c1 t1;
       (total, t3) \<leftarrow> run_ticks n c2 t2;
       Some ((c 1 - c 0) + sleep + total, t3)
     }"

lemma run_ticks_spec:
  assumes "ticker_ok t"
  shows "\<exists>total t'. run_ticks n c t = Some (total, t') \<and> ticker_ok t' \<and> tick_delay t' = tick_delay t \<and>
    total + tick_overflow t = n * tick_delay t + tick_overflow t'"
  using assms
proof (induction n arbitrary: c t)
  case (Suc n)
  let ?t = "t\<lparr>tick_start := c 0\<rparr>"
  have "ticker_ok ?t" using Suc.prems by (simp add: ticker_ok_def)
  then obtain sleep t2 where 1: "end_tick (clock_skip 1 c) ?t = Some (sleep, t2, clock_skip 2 c)"
    "ticker_ok t2" "tick_delay t2 = tick_delay t"
    "(c 1 - c 0) + sleep + tick_overflow t = tick_delay t + tick_overflow t2"
    by (rule end_tick_spec [of ?t "clock_skip 1 c"]) (auto simp: numeral_2_eq_2)
  from Suc.IH [OF 1(2), of "clock_skip 2 c"] obtain total t' where 2:
    "run_ticks n (clock_skip 2 c) t2 = Some (total, t')" "ticker_ok t'" "tick_delay t' = tick_delay t2"
    "total + tick_overflow t2 = n * tick_delay t2 + tick_overflow t'"
    by blast
  have "run_ticks (Suc n) c t = Some ((c 1 - c 0) + sleep + total, t')"
    using 1(1) 2(1) by (simp add: begin_tick_def)
  with 1(3,4) 2(2-4) show ?case by simp
qed simp

subsection \<open>Properties\<close>

text \<open>C23: Time accounting. With overflow recovery on and a recovery rate that is not negative (larger than
  one, infinite or \<open>NaN\<close> included), no run of ticks panics, and the time worked and slept over \<open>n\<close>
  ticks is \<open>n\<close> nominal delays plus the overflow still owed: late ticks are made up for and never
  over-corrected.\<close>

theorem ticks_keep_schedule:
  assumes "ticker_new config c0 = Some (t, c)" "1 \<le> send_rate config"
    and "tick_overflow_recovery config" "f32_nonneg (tick_overflow_recovery_rate config)"
  shows "\<exists>total t'. run_ticks n c t = Some (total, t') \<and>
    total = n * (1000000000 div send_rate config) + tick_overflow t'"
proof -
  have "1000000000 div send_rate config < 4294967296"
    by (rule le_less_trans [OF div_le_dividend]) simp
  then have "ticker_ok t \<and> tick_delay t = 1000000000 div send_rate config \<and> tick_overflow t = 0"
    using assms by (auto simp: ticker_new_def ticker_ok_def)
  with run_ticks_spec [of t n c] show ?thesis by auto
qed

theorem ticks_keep_schedule_witness:
  "\<exists>t c. ticker_new default_config (\<lambda>n. n) = Some (t, c) \<and>
    (\<exists>total t'. run_ticks 5 c t = Some (total, t') \<and> total = 5 * 33333333 + tick_overflow t')"
proof -
  obtain t c where "ticker_new default_config (\<lambda>n. n) = Some (t, c)"
    by (auto simp: ticker_new_def)
  moreover from ticks_keep_schedule [OF this, of 5] have
    "\<exists>total t'. run_ticks 5 c t = Some (total, t') \<and> total = 5 * 33333333 + tick_overflow t'" by simp
  ultimately show ?thesis by blast
qed

text \<open>One tick never sleeps longer than the nominal delay less the time it worked, and an idle
  ticker, one that owes no overflow, sleeps exactly that long.\<close>

lemma sleep_bounded:
  assumes "ticker_ok t" "end_tick c t = Some (sleep, t', c')"
  shows "sleep \<le> tick_delay t - (c 0 - tick_start t) \<and>
    (tick_overflow t = 0 \<longrightarrow> sleep = tick_delay t - (c 0 - tick_start t))"
  by (rule end_tick_spec [OF assms(1), of c]) (use assms(2) in auto)

text \<open>A negative recovery rate is said to have no effect; it makes the first tick that is finished in
  time panic, because the overflow grows and the amount recovered is computed by subtracting it.\<close>

lemma negative_rate_panics:
  assumes "overflow_recovery t" "overflow_recovery_rate t = Fin (- 1)"
    and "c 0 - tick_start t < tick_delay t" "tick_delay t < 2 ^ 24"
  shows "end_tick c t = None"
proof -
  let ?taken = "c 0 - tick_start t" let ?room = "tick_delay t - ?taken"
  have "f32_mul (f32_of_nat ?room) (Fin (- 1)) = Fin (of_int (- int ?room))"
    using assms(4) f32_round_of_int [of "- int ?room"] by (simp add: f32_of_nat_small)
  moreover have "f32_to_i64 (Fin (of_int (- int ?room))) = - int ?room"
    using assms(4) by (simp del: of_int_minus of_int_of_nat_eq)
  ultimately have "correction ?room (Fin (- 1)) = - int ?room"
    by (simp only: correction_def) simp
  moreover have "min ?taken (tick_delay t) = ?taken" using assms(3) by simp
  moreover have "checked_sub v (nat (int v - (int ?taken - int (tick_delay t)))) = None" for v
    using assms(3) by simp
  ultimately show ?thesis
    using assms(1-3) by (simp add: end_tick_def recover_overflow_def Let_def
        del: checked_sub_None_iff)
qed

end
