(* ===== verification/Stats.thy ===== *)
theory Stats
  imports Config
begin

text \<open>
  Traffic statistics, \<open>src/shared/stats.rs\<close>: a ring of \<open>send_rate + 1\<close> buckets and a running sum that
  a tick updates in constant time. The locale states one column of the ring, bytes sent or bytes
  received; both interpret it. Theorem: after every tick the reported average is the sum over the last
  \<open>send_rate\<close> ticks; and what a configuration change, or a tick without a report, does to that.
\<close>

record stats =
  bytes_sent :: u32
  bytes_received :: u32

definition stats_default :: stats where
  "stats_default = \<lparr>bytes_sent = 0, bytes_received = 0\<rparr>"

definition stats_reset :: "stats \<Rightarrow> stats" where
  "stats_reset s = s\<lparr>bytes_sent := 0, bytes_received := 0\<rparr>"

record stats_collector =
  st_tick :: nat
  st_config :: config
  buckets :: "stats list"
  averages :: stats

definition new_buckets :: "config \<Rightarrow> stats list" where
  "new_buckets config = map (\<lambda>_. stats_default) [0..<send_rate config + 1]"

definition collector_new :: "config \<Rightarrow> stats_collector" where
  "collector_new config =
     \<lparr>st_tick = 0, st_config = config, buckets = new_buckets config, averages = stats_default\<rparr>"

definition collector_set_config :: "config \<Rightarrow> stats_collector \<Rightarrow> stats_collector" where
  "collector_set_config config s = s\<lparr>st_config := config, buckets := new_buckets config\<rparr>"

text \<open>\<open>(self.tick as i32 + 1) % (self.config.send_rate + 1) as i32\<close>, then cast to an index.\<close>

definition old_index :: "stats_collector \<Rightarrow> nat option" where
  "old_index s =
     do {
       let t = as_i32 (st_tick s);
       t' \<leftarrow> (if t + 1 < 2 ^ 31 then Some (t + 1) else None);
       i \<leftarrow> checked_rem_i32 t' (as_i32 (send_rate (st_config s) + 1));
       (if 0 \<le> i then Some (nat i) else None)
     }"

definition set_bytes_sent :: "u32 \<Rightarrow> stats_collector \<Rightarrow> stats_collector option" where
  "set_bytes_sent bytes s =
     do {
       i \<leftarrow> old_index s;
       old \<leftarrow> checked_nth (buckets s) i;
       rest \<leftarrow> checked_sub_u32 (bytes_sent (averages s)) (bytes_sent old);
       sum \<leftarrow> checked_add_u32 rest bytes;
       now \<leftarrow> checked_nth (buckets s) (st_tick s);
       Some (s\<lparr>averages := (averages s)\<lparr>bytes_sent := sum\<rparr>,
               buckets := (buckets s)[st_tick s := now\<lparr>bytes_sent := bytes\<rparr>]\<rparr>)
     }"

definition set_bytes_received :: "u32 \<Rightarrow> stats_collector \<Rightarrow> stats_collector option" where
  "set_bytes_received bytes s =
     do {
       i \<leftarrow> old_index s;
       old \<leftarrow> checked_nth (buckets s) i;
       rest \<leftarrow> checked_sub_u32 (bytes_received (averages s)) (bytes_received old);
       sum \<leftarrow> checked_add_u32 rest bytes;
       now \<leftarrow> checked_nth (buckets s) (st_tick s);
       Some (s\<lparr>averages := (averages s)\<lparr>bytes_received := sum\<rparr>,
               buckets := (buckets s)[st_tick s := now\<lparr>bytes_received := bytes\<rparr>]\<rparr>)
     }"

definition collector_tick :: "stats_collector \<Rightarrow> stats_collector" where
  "collector_tick s = s\<lparr>st_tick := (st_tick s + 1) mod (send_rate (st_config s) + 1)\<rparr>"

definition average :: "stats_collector \<Rightarrow> stats" where
  "average s = averages s"

definition collector_reset :: "stats_collector \<Rightarrow> stats_collector" where
  "collector_reset s =
     s\<lparr>averages := (averages s)\<lparr>bytes_sent := 0, bytes_received := 0\<rparr>,
       buckets := map stats_reset (buckets s)\<rparr>"

text \<open>The bucket that leaves the window, when the rate and tick are below \<open>2 ^ 31\<close>.\<close>

lemma old_index_eq:
  assumes "st_tick s \<le> send_rate (st_config s)" "send_rate (st_config s) < 2 ^ 31 - 1"
  shows "old_index s = Some ((st_tick s + 1) mod (send_rate (st_config s) + 1))"
proof -
  have "as_i32 (st_tick s) = int (st_tick s)"
    "as_i32 (send_rate (st_config s) + 1) = int (send_rate (st_config s) + 1)"
    using assms by (simp_all only: as_i32_small)
  with assms show ?thesis
    by (simp add: old_index_def checked_rem_i32_def Let_def nat_mod_distrib nat_add_distrib)
qed

subsection \<open>One column of the ring\<close>

definition recent :: "nat list \<Rightarrow> nat \<Rightarrow> nat" where
  "recent hist k = (if k < length hist then hist ! k else 0)"

lemma recent_Cons [simp]: "recent (x # hist) 0 = x" "recent (x # hist) (Suc k) = recent hist k"
  by (simp_all add: recent_def)

definition window :: "nat \<Rightarrow> nat list \<Rightarrow> nat" where
  "window n hist = (\<Sum>k<n. recent hist k)"

lemma window_Suc: "window (Suc n) (x # hist) = x + window n hist"
  unfolding window_def by (subst sum.lessThan_Suc_shift) simp

lemma window_take: "window n hist = sum_list (take n hist)"
proof (induction hist arbitrary: n)
  case (Cons x hist)
  then show ?case by (cases n) (simp_all add: window_Suc, simp add: window_def)
qed (simp add: window_def recent_def)

lemma window_Cons: "0 < n \<Longrightarrow> window n (x # hist) + recent hist (n - 1) = x + window n hist"
  by (cases n) (simp_all add: window_Suc, simp add: window_def)

locale stats_column =
  fixes col :: "stats \<Rightarrow> u32"
    and put :: "u32 \<Rightarrow> stats \<Rightarrow> stats"
    and set_col :: "u32 \<Rightarrow> stats_collector \<Rightarrow> stats_collector option"
  assumes col_put: "col (put x b) = x"
    and col_default: "col stats_default = 0"
    and set_col_eq:
      "set_col x s =
         do {
           i \<leftarrow> old_index s;
           old \<leftarrow> checked_nth (buckets s) i;
           rest \<leftarrow> checked_sub_u32 (col (averages s)) (col old);
           sum \<leftarrow> checked_add_u32 rest x;
           now \<leftarrow> checked_nth (buckets s) (st_tick s);
           Some (s\<lparr>averages := put sum (averages s), buckets := (buckets s)[st_tick s := put x now]\<rparr>)
         }"
begin

text \<open>
  \<open>holds hist s\<close>: the values of the past ticks are \<open>hist\<close>, the latest first, the bucket of the present tick
  has left the sum.
\<close>

definition holds :: "nat list \<Rightarrow> stats_collector \<Rightarrow> bool" where
  "holds hist s \<longleftrightarrow>
     (let n = send_rate (st_config s) in
      length (buckets s) = n + 1 \<and> st_tick s \<le> n \<and>
      (\<forall>k<n. unat (col (buckets s ! ((st_tick s + n - k) mod (n + 1)))) = recent hist k) \<and>
      unat (col (averages s)) = window n hist)"

lemma holds_new: "holds [] (collector_new config)"
  by (simp add: holds_def collector_new_def new_buckets_def window_def recent_def col_default Let_def
      nth_append)

text \<open>What of a collector the column depends on.\<close>

definition view :: "stats_collector \<Rightarrow> nat \<times> config \<times> u32 list \<times> u32" where
  "view s = (st_tick s, st_config s, map col (buckets s), col (averages s))"

lemma holds_view:
  "holds hist s \<longleftrightarrow>
     (case view s of (t, config, vs, avg) \<Rightarrow>
        let n = send_rate config in
        length vs = n + 1 \<and> t \<le> n \<and> (\<forall>k<n. unat (vs ! ((t + n - k) mod (n + 1))) = recent hist k) \<and>
        unat avg = window n hist)"
  by (auto simp: holds_def view_def Let_def)

lemma view_tick:
  "view s = view s' \<Longrightarrow> view (collector_tick s) = view (collector_tick s')"
  by (simp add: view_def collector_tick_def)

lemma set_col_window:
  assumes "holds hist s" "0 < send_rate (st_config s)" "send_rate (st_config s) < 2 ^ 31 - 1"
    and "unat x + window (send_rate (st_config s)) hist < 2 ^ 32"
  obtains s' where "set_col x s = Some s'" "holds (unat x # hist) (collector_tick s')"
    "unat (col (averages s')) = window (send_rate (st_config s)) (unat x # hist)"
    "st_config s' = st_config s"
proof -
  define n where "n = send_rate (st_config s)"
  define t where "t = st_tick s"
  have n: "0 < n" "n < 2 ^ 31 - 1" using assms(2,3) by (simp_all add: n_def)
  have h: "length (buckets s) = n + 1" "t \<le> n" "unat (col (averages s)) = window n hist"
    and b: "\<And>k. k < n \<Longrightarrow> unat (col (buckets s ! ((t + n - k) mod (n + 1)))) = recent hist k"
    using assms(1) by (simp_all add: holds_def Let_def n_def t_def)
  let ?i = "(t + 1) mod (n + 1)"
  have i: "old_index s = Some ?i" "?i < n + 1"
    using old_index_eq [of s] h(2) n by (simp_all add: n_def t_def)
  have old: "unat (col (buckets s ! ?i)) = recent hist (n - 1)"
    using b [of "n - 1"] n by simp
  define rest where "rest = col (averages s) - col (buckets s ! ?i)"
  have "recent hist (n - 1) \<le> window n hist"
    unfolding window_def by (rule member_le_sum) (use n in simp_all)
  then have le: "col (buckets s ! ?i) \<le> col (averages s)"
    unfolding word_le_nat_alt old h(3) .
  then have rest: "unat rest = window n hist - recent hist (n - 1)"
    unfolding old [symmetric] h(3) [symmetric] rest_def by (rule unat_sub)
  have w: "window n (unat x # hist) + recent hist (n - 1) = unat x + window n hist"
    by (rule window_Cons [OF n(1)])
  have small: "unat rest + unat x < 2 ^ 32" unfolding rest using assms(4) unfolding n_def by linarith
  then have "unat (rest + x) = unat rest + unat x" by (simp add: unat_word_ariths)
  then have sum: "unat (rest + x) = window n (unat x # hist)"
    using w \<open>recent hist (n - 1) \<le> window n hist\<close> unfolding rest by linarith
  let ?s = "s\<lparr>averages := put (rest + x) (averages s), buckets := (buckets s)[t := put x (buckets s ! t)]\<rparr>"
  have "set_col x s = Some ?s"
    using i le small h(1,2) unfolding rest_def
    by (simp add: set_col_eq checked_sub_u32_def checked_add_u32_def t_def)
  moreover have "holds (unat x # hist) (collector_tick ?s)"
  proof -
    have "unat (col ((buckets s)[t := put x (buckets s ! t)] ! (((t + 1) mod (n + 1) + n - k) mod (n + 1)))) =
        recent (unat x # hist) k" if k: "k < n" for k
    proof (cases k)
      case 0
      have "((t + 1) mod (n + 1) + n) mod (n + 1) = t" using h(2) by (cases "t = n") (auto simp: mod_if)
      with 0 h(1,2) show ?thesis by (simp add: col_put)
    next
      case (Suc j)
      have "((t + 1) mod (n + 1) + n - k) mod (n + 1) = (t + n - j) mod (n + 1)"
        using h(2) k Suc by (cases "t = n") (auto simp: Suc_diff_le mod_if)
      moreover have "(t + n - j) mod (n + 1) \<noteq> t"
      proof (cases "j < t")
        case True
        then have "(t + n - j) mod (n + 1) = t - 1 - j"
          using h(2) by (simp add: mod_if)
        with True show ?thesis by simp
      next
        case False
        with Suc k show ?thesis by simp
      qed
      ultimately show ?thesis using b [of j] k Suc by simp
    qed
    then show ?thesis
      using h(1,2) sum by (simp add: holds_def collector_tick_def Let_def n_def t_def col_put)
  qed
  ultimately show thesis
    using that sum by (simp add: n_def col_put)
qed

end

interpretation received: stats_column bytes_received "\<lambda>x b. b\<lparr>bytes_received := x\<rparr>" set_bytes_received
  by unfold_locales (simp_all add: set_bytes_received_def stats_default_def)

interpretation sent: stats_column bytes_sent "\<lambda>x b. b\<lparr>bytes_sent := x\<rparr>" set_bytes_sent
  by unfold_locales (simp_all add: set_bytes_sent_def stats_default_def)

subsection \<open>Whole runs\<close>

text \<open>One tick of a client or server: the bytes received, the bytes sent, then the tick.\<close>

fun run_stats :: "(u32 \<times> u32) list \<Rightarrow> stats_collector \<Rightarrow> stats_collector option" where
  "run_stats [] s = Some s"
| "run_stats ((r, t) # samples) s =
     do { s \<leftarrow> set_bytes_received r s; s \<leftarrow> set_bytes_sent t s; run_stats samples (collector_tick s) }"

lemma map_update_same: "f y = f (xs ! i) \<Longrightarrow> map f (xs[i := y]) = map f xs"
  by (cases "i < length xs") (simp_all add: map_update list_update_same_conv list_update_beyond)

lemma other_column:
  "set_bytes_received r s = Some s' \<Longrightarrow> sent.view s' = sent.view s"
  "set_bytes_sent t s = Some s' \<Longrightarrow> received.view s' = received.view s"
  by (auto simp: set_bytes_received_def set_bytes_sent_def bind_Some_iff sent.view_def received.view_def
      checked_nth_def map_update_same split: if_splits)

lemma window_bound: "(\<And>v. v \<in> set hist \<Longrightarrow> v \<le> b) \<Longrightarrow> window n hist \<le> n * b"
proof -
  assume b: "\<And>v. v \<in> set hist \<Longrightarrow> v \<le> b"
  have "window n hist \<le> (\<Sum>k<n. b)"
    unfolding window_def by (rule sum_mono) (auto simp: recent_def b)
  then show ?thesis by simp
qed

definition rates_ok :: "nat \<Rightarrow> nat \<Rightarrow> bool" where
  "rates_ok rate b \<longleftrightarrow> 0 < rate \<and> rate < 2 ^ 31 - 1 \<and> b * (rate + 1) < 2 ^ 32"

lemma run_stats_tick:
  assumes "received.holds hr s" "sent.holds ht s" "rates_ok (send_rate (st_config s)) b"
    and "\<And>v. v \<in> set hr \<union> set ht \<Longrightarrow> v \<le> b" "unat r \<le> b" "unat t \<le> b"
  obtains s1 s2 where "set_bytes_received r s = Some s1" "set_bytes_sent t s1 = Some s2"
    "received.holds (unat r # hr) (collector_tick s2)" "sent.holds (unat t # ht) (collector_tick s2)"
    "st_config s2 = st_config s"
proof -
  let ?n = "send_rate (st_config s)"
  have n: "0 < ?n" "?n < 2 ^ 31 - 1" "b * ?n + b < 2 ^ 32" using assms(3) by (simp_all add: rates_ok_def)
  have "window ?n hr \<le> ?n * b" by (rule window_bound) (use assms(4) in blast)
  then have "unat r + window ?n hr < 2 ^ 32" using n(3) assms(5) by (simp add: mult.commute)
  then obtain s1 where 1: "set_bytes_received r s = Some s1" "received.holds (unat r # hr) (collector_tick s1)"
    "st_config s1 = st_config s"
    using received.set_col_window [OF assms(1) n(1,2)] by blast
  have "sent.holds ht s1"
    using assms(2) other_column(1) [OF 1(1)] by (simp add: sent.holds_view)
  moreover have "window ?n ht \<le> ?n * b" by (rule window_bound) (use assms(4) in blast)
  then have "unat t + window ?n ht < 2 ^ 32" using n(3) assms(6) by (simp add: mult.commute)
  ultimately obtain s2 where 2: "set_bytes_sent t s1 = Some s2" "sent.holds (unat t # ht) (collector_tick s2)"
    "st_config s2 = st_config s1"
    using sent.set_col_window [of ht s1] n(1,2) 1(3) by metis
  have "received.view (collector_tick s2) = received.view (collector_tick s1)"
    by (rule received.view_tick [OF other_column(2) [OF 2(1)]])
  then have "received.holds (unat r # hr) (collector_tick s2)"
    using 1(2) by (simp add: received.holds_view)
  then show thesis using that 1 2 by simp
qed

lemma run_stats_window:
  assumes "received.holds hr s" "sent.holds ht s" "rates_ok (send_rate (st_config s)) b"
    and "\<And>v. v \<in> set hr \<union> set ht \<Longrightarrow> v \<le> b"
    and "\<And>r t. (r, t) \<in> set samples \<Longrightarrow> unat r \<le> b \<and> unat t \<le> b"
  shows "\<exists>s'. run_stats samples s = Some s' \<and> st_config s' = st_config s \<and>
    received.holds (rev (map (unat \<circ> fst) samples) @ hr) s' \<and>
    sent.holds (rev (map (unat \<circ> snd) samples) @ ht) s'"
  using assms
proof (induction samples arbitrary: s hr ht)
  case (Cons v samples)
  obtain r t where v: "v = (r, t)" by force
  have b: "unat r \<le> b" "unat t \<le> b" using Cons.prems(5) [of r t] by (simp_all add: v)
  obtain s1 s2 where s: "set_bytes_received r s = Some s1" "set_bytes_sent t s1 = Some s2"
    "received.holds (unat r # hr) (collector_tick s2)" "sent.holds (unat t # ht) (collector_tick s2)"
    "st_config s2 = st_config s"
    by (rule run_stats_tick [OF Cons.prems(1-4) b])
  have config: "st_config (collector_tick s2) = st_config s" using s(5) by (simp add: collector_tick_def)
  have "\<exists>s'. run_stats samples (collector_tick s2) = Some s' \<and>
      st_config s' = st_config (collector_tick s2) \<and>
      received.holds (rev (map (unat \<circ> fst) samples) @ unat r # hr) s' \<and>
      sent.holds (rev (map (unat \<circ> snd) samples) @ unat t # ht) s'"
    by (rule Cons.IH [OF s(3,4)]) (use Cons.prems b config in auto)
  with s(1,2) config v show ?case by (simp add: o_def)
qed simp

text \<open>Idle ticks on an empty ring only move the tick.\<close>

definition empty_ring :: "stats_collector \<Rightarrow> bool" where
  "empty_ring s \<longleftrightarrow> buckets s = new_buckets (st_config s) \<and> st_tick s \<le> send_rate (st_config s) \<and>
     send_rate (st_config s) < 2 ^ 31 - 1"

lemma new_buckets_nth: "i \<le> send_rate config \<Longrightarrow> new_buckets config ! i = stats_default"
  by (simp add: new_buckets_def nth_append del: upt_Suc)

lemma length_new_buckets [simp]: "length (new_buckets config) = send_rate config + 1"
  by (simp add: new_buckets_def)

lemma empty_ring_idle:
  assumes "empty_ring s"
  shows "set_bytes_received 0 s = Some s" "set_bytes_sent 0 s = Some s" "empty_ring (collector_tick s)"
proof -
  let ?i = "(st_tick s + 1) mod (send_rate (st_config s) + 1)"
  have t: "st_tick s \<le> send_rate (st_config s)" "buckets s = new_buckets (st_config s)"
    using assms by (simp_all add: empty_ring_def)
  have i: "?i \<le> send_rate (st_config s)" by (simp flip: less_Suc_eq_le)
  have old: "old_index s = Some ?i" using assms by (simp add: empty_ring_def old_index_eq)
  have keep: "(new_buckets (st_config s))[st_tick s := stats_default] = new_buckets (st_config s)"
    using new_buckets_nth [OF t(1)] by (metis list_update_id)
  have "checked_nth (buckets s) ?i = Some stats_default"
    "checked_nth (buckets s) (st_tick s) = Some stats_default"
    using t i new_buckets_nth [OF i] new_buckets_nth [OF t(1)] by (simp_all add: checked_nth_def)
  then show "set_bytes_received 0 s = Some s" "set_bytes_sent 0 s = Some s"
    using t(2) keep old
    by (simp_all add: set_bytes_received_def set_bytes_sent_def checked_sub_u32_def checked_add_u32_def
        stats_default_def)
  show "empty_ring (collector_tick s)"
    using assms i by (simp add: empty_ring_def collector_tick_def)
qed

lemma empty_ring_run:
  "empty_ring s \<Longrightarrow> \<exists>s'. run_stats (replicate n (0, 0)) s = Some s' \<and> average s' = average s"
proof (induction n arbitrary: s)
  case (Suc n)
  from Suc.IH [OF empty_ring_idle(3) [OF Suc.prems]] empty_ring_idle [OF Suc.prems] show ?case
    by (simp add: average_def collector_tick_def)
qed simp

lemma averages_windows:
  assumes "rates_ok (send_rate config) b"
    and "\<forall>(r, t) \<in> set samples. unat r \<le> b \<and> unat t \<le> b"
  shows "\<exists>s. run_stats samples (collector_new config) = Some s \<and>
    unat (bytes_received (average s)) =
      sum_list (take (send_rate config) (rev (map (\<lambda>(r, t). unat r) samples))) \<and>
    unat (bytes_sent (average s)) =
      sum_list (take (send_rate config) (rev (map (\<lambda>(r, t). unat t) samples)))"
proof -
  have "st_config (collector_new config) = config" by (simp add: collector_new_def)
  then obtain s where "run_stats samples (collector_new config) = Some s" "st_config s = config"
    "received.holds (rev (map (unat \<circ> fst) samples)) s" "sent.holds (rev (map (unat \<circ> snd) samples)) s"
    using run_stats_window [OF received.holds_new [of config] sent.holds_new [of config], of b samples] assms
    by auto
  then show ?thesis
    by (simp add: received.holds_def sent.holds_def average_def Let_def window_take case_prod_unfold o_def)
qed

subsection \<open>Properties\<close>

text \<open>C22: Reported traffic is an exact sliding window. From a fresh collector, with at most \<open>b\<close> bytes per
  tick and the window below four gigabytes, no run of ticks panics, and the averages are the sums of the
  bytes received and sent in the last \<open>send_rate\<close> ticks.\<close>

theorem averages_are_windows:
  assumes "rates_ok (send_rate config) b"
    and "\<forall>(r, t) \<in> set samples. unat r \<le> b \<and> unat t \<le> b"
  shows "\<exists>s. run_stats samples (collector_new config) = Some s \<and>
    unat (bytes_received (average s)) =
      sum_list (take (send_rate config) (rev (map (\<lambda>(r, t). unat r) samples))) \<and>
    unat (bytes_sent (average s)) =
      sum_list (take (send_rate config) (rev (map (\<lambda>(r, t). unat t) samples)))"
  using assms by (rule averages_windows)

theorem averages_are_windows_witness:
  "\<exists>s. run_stats [(5, 7), (1, 2)] (collector_new default_config) = Some s \<and>
    unat (bytes_received (average s)) = 6 \<and> unat (bytes_sent (average s)) = 9"
  using averages_are_windows [of default_config 7 "[(5, 7), (1, 2)]"] by (simp add: rates_ok_def)

text \<open>Lowering the send rate while the collector is past the new end of the ring makes the next report
  panic: \<open>set_config\<close> shortens the buckets and leaves the tick where it is.\<close>

lemma lower_rate_panics:
  assumes "send_rate config < st_tick s"
  shows "set_bytes_sent bytes (collector_set_config config s) = None \<and>
    set_bytes_received bytes (collector_set_config config s) = None"
proof -
  have "checked_nth (new_buckets config) (st_tick s) = None"
    using assms by (simp add: new_buckets_def)
  then show ?thesis
    by (auto simp: set_bytes_sent_def set_bytes_received_def collector_set_config_def bind_eq_None_conv)
qed

text \<open>A configuration change clears the buckets but not the averages: what had been sent and received
  before stays in the reported averages, however long nothing more is sent or received.\<close>

lemma config_change_keeps_old_averages:
  assumes "st_tick s \<le> send_rate config" "send_rate config < 2 ^ 31 - 1"
  shows "\<exists>s'. run_stats (replicate n (0, 0)) (collector_set_config config s) = Some s' \<and>
    average s' = average s"
proof -
  have "empty_ring (collector_set_config config s)"
    using assms by (simp add: empty_ring_def collector_set_config_def)
  from empty_ring_run [OF this, of n] show ?thesis
    by (simp add: average_def collector_set_config_def)
qed

subsection \<open>Ticks without a report\<close>

text \<open>C40: A configuration change breaks the statistics. \<open>set_config\<close> renews the buckets and leaves tick and
  averages as they are. If the tick is past the new end of the ring the next report panics; otherwise what
  had been sent and received stays in the averages for ever, also when nothing is sent or received.\<close>

theorem config_change_breaks_statistics:
  assumes "send_rate config < 2 ^ 31 - 1"
  shows "if send_rate config < st_tick s
    then set_bytes_sent x (collector_set_config config s) = None \<and>
      set_bytes_received x (collector_set_config config s) = None
    else \<exists>s'. run_stats (replicate n (0, 0)) (collector_set_config config s) = Some s' \<and> average s' = average s"
  using lower_rate_panics [of config s x] config_change_keeps_old_averages [of s config n] assms by simp

theorem config_change_breaks_statistics_witness:
  "set_bytes_sent 1 (collector_set_config (default_config\<lparr>send_rate := 1\<rparr>)
     (collector_tick (collector_tick (collector_new default_config)))) = None \<and>
   (\<exists>s s'. run_stats [(500, 700)] (collector_new default_config) = Some s \<and>
      run_stats (replicate 1000 (0, 0)) (collector_set_config default_config s) = Some s' \<and>
      unat (bytes_sent (average s')) = 700)"
proof (intro conjI)
  show "set_bytes_sent 1 (collector_set_config (default_config\<lparr>send_rate := 1\<rparr>)
     (collector_tick (collector_tick (collector_new default_config)))) = None"
    using config_change_breaks_statistics [of "default_config\<lparr>send_rate := 1\<rparr>"
        "collector_tick (collector_tick (collector_new default_config))" 1]
    by (simp add: collector_tick_def collector_new_def)
  obtain s where s: "run_stats [(500, 700)] (collector_new default_config) = Some s"
    "unat (bytes_sent (average s)) = 700"
    using averages_windows [of default_config 700 "[(500, 700)]"] by (auto simp: rates_ok_def)
  have "\<not> 30 < st_tick s"
    using s(1) by (auto simp: set_bytes_received_def set_bytes_sent_def collector_tick_def collector_new_def bind_Some_iff)
  with s config_change_breaks_statistics [of default_config s 0 1000]
  show "\<exists>s s'. run_stats [(500, 700)] (collector_new default_config) = Some s \<and>
      run_stats (replicate 1000 (0, 0)) (collector_set_config default_config s) = Some s' \<and>
      unat (bytes_sent (average s')) = 700"
    by auto
qed

text \<open>A ring with one burst received in bucket 0, and a collector with it at tick \<open>t\<close>.\<close>

definition burst :: "u32 \<Rightarrow> nat \<Rightarrow> stats list" where
  "burst b n = \<lparr>bytes_sent = 0, bytes_received = b\<rparr> # replicate n stats_default"

lemma burst_simps [simp]:
  "length (burst b n) = n + 1" "burst b n ! 0 = \<lparr>bytes_sent = 0, bytes_received = b\<rparr>"
  "0 < i \<Longrightarrow> i \<le> n \<Longrightarrow> burst b n ! i = stats_default"
  "0 < i \<Longrightarrow> i \<le> n \<Longrightarrow> (burst b n)[i := stats_default] = burst b n"
proof -
  show nth: "burst b n ! i = stats_default" if "0 < i" "i \<le> n" for i
    using that by (cases i) (simp_all add: burst_def)
  show "(burst b n)[i := stats_default] = burst b n" if "0 < i" "i \<le> n"
    using nth [OF that] by (metis list_update_id)
qed (simp_all add: burst_def)

lemma stats_default_simps [simp]:
  "bytes_sent stats_default = 0" "bytes_received stats_default = 0"
  "stats_default\<lparr>bytes_sent := 0\<rparr> = stats_default" "stats_default\<lparr>bytes_received := 0\<rparr> = stats_default"
  by (simp_all add: stats_default_def)

definition burst_ring :: "config \<Rightarrow> u32 \<Rightarrow> u32 \<Rightarrow> nat \<Rightarrow> stats_collector" where
  "burst_ring config b received t =
     \<lparr>st_tick = t, st_config = config, buckets = burst b (send_rate config),
      averages = \<lparr>bytes_sent = 0, bytes_received = received\<rparr>\<rparr>"

lemma burst_ring_old_index:
  "t \<le> send_rate config \<Longrightarrow> send_rate config < 2 ^ 31 - 1 \<Longrightarrow>
   old_index (burst_ring config b v t) = Some ((t + 1) mod (send_rate config + 1))"
  by (subst old_index_eq) (simp_all add: burst_ring_def)

lemmas burst_ring_eval = set_bytes_received_def set_bytes_sent_def collector_tick_def burst_ring_old_index
  checked_sub_u32_def checked_add_u32_def

lemma burst_ring_idle:
  assumes "0 < t" "t < send_rate config" "send_rate config < 2 ^ 31 - 1"
  shows "set_bytes_received 0 (burst_ring config b v t) = Some (burst_ring config b v t)"
    "set_bytes_sent 0 (burst_ring config b v t) = Some (burst_ring config b v t)"
    "collector_tick (burst_ring config b v t) = burst_ring config b v (Suc t)"
  using assms by (simp_all add: burst_ring_eval) (simp_all add: burst_ring_def)

lemma burst_ring_run:
  "0 < t \<Longrightarrow> t + k \<le> send_rate config \<Longrightarrow> send_rate config < 2 ^ 31 - 1 \<Longrightarrow>
   run_stats (replicate k (0, 0)) (burst_ring config b v t) = Some (burst_ring config b v (t + k))"
proof (induction k arbitrary: t)
  case (Suc k)
  then have t: "0 < t" "t < send_rate config" "send_rate config < 2 ^ 31 - 1" by simp_all
  from Suc.IH [of "Suc t"] Suc.prems show ?case by (simp add: burst_ring_idle [OF t])
qed simp

text \<open>The last tick of the ring takes the burst out of the sum, each time.\<close>

lemma burst_ring_last:
  assumes "0 < send_rate config" "send_rate config < 2 ^ 31 - 1"
  shows "run_stats [(0, 0)] (burst_ring config b b (send_rate config)) = Some (burst_ring config b 0 0)"
    "b \<noteq> 0 \<Longrightarrow> set_bytes_received x (burst_ring config b 0 (send_rate config)) = None"
proof -
  let ?n = "send_rate config"
  have "set_bytes_received 0 (burst_ring config b b ?n) = Some (burst_ring config b 0 ?n)"
    "set_bytes_sent 0 (burst_ring config b 0 ?n) = Some (burst_ring config b 0 ?n)"
    "collector_tick (burst_ring config b 0 ?n) = burst_ring config b 0 0"
    using assms by (simp_all add: burst_ring_eval) (simp_all add: burst_ring_def)
  then show "run_stats [(0, 0)] (burst_ring config b b ?n) = Some (burst_ring config b 0 0)" by simp
  show "b \<noteq> 0 \<Longrightarrow> set_bytes_received x (burst_ring config b 0 ?n) = None"
    using assms by (simp add: burst_ring_eval) (simp add: burst_ring_def word_le_nat_alt unat_eq_0)
qed

lemma burst_ring_first:
  assumes "0 < send_rate config" "send_rate config < 2 ^ 31 - 1"
  shows "run_stats [(b, 0)] (collector_new config) = Some (burst_ring config b b 1)"
    "set_bytes_sent 0 (burst_ring config b 0 0) = Some (burst_ring config b 0 0)"
    "collector_tick (burst_ring config b 0 0) = burst_ring config b 0 1"
proof -
  have new: "collector_new config = burst_ring config 0 0 0"
    by (simp add: collector_new_def burst_ring_def burst_def stats_default_def new_buckets_def map_replicate_const)
  have first: "(burst 0 n)[0 := \<lparr>bytes_sent = 0, bytes_received = b\<rparr>] = burst b n" for n
    by (simp add: burst_def)
  have zero: "(burst b n)[0 := \<lparr>bytes_sent = 0, bytes_received = b\<rparr>] = burst b n" for n
    by (simp add: burst_def)
  have received: "set_bytes_received b (burst_ring config 0 0 0) = Some (burst_ring config b b 0)"
    using assms by (simp add: burst_ring_eval) (simp add: burst_ring_def first)
  have sent: "set_bytes_sent 0 (burst_ring config b v 0) = Some (burst_ring config b v 0)"
    and tick: "collector_tick (burst_ring config b v 0) = burst_ring config b v 1" for v
    using assms by (simp_all add: burst_ring_eval) (simp_all add: burst_ring_def zero)
  show "run_stats [(b, 0)] (collector_new config) = Some (burst_ring config b b 1)"
    unfolding new by (simp add: received sent tick)
  show "set_bytes_sent 0 (burst_ring config b 0 0) = Some (burst_ring config b 0 0)"
    "collector_tick (burst_ring config b 0 0) = burst_ring config b 0 1"
    by (rule sent tick)+
qed

text \<open>C33: A tick whose receipts are not reported corrupts the averages: the bucket keeps what was received a
  whole window before, which is taken out of the sum a second time one window later. After a burst, a
  quiet window, and one tick in which only the bytes sent are reported (a \<open>send\<close> without a \<open>receive\<close>),
  the report that ends the next quiet window underflows.\<close>

theorem unreported_tick_panics:
  assumes "0 < send_rate config" "send_rate config < 2 ^ 31 - 1" "b \<noteq> 0"
  shows "\<exists>s s1 s2. run_stats ((b, 0) # replicate (send_rate config) (0, 0)) (collector_new config) = Some s \<and>
    set_bytes_sent 0 s = Some s1 \<and>
    run_stats (replicate (send_rate config - 1) (0, 0)) (collector_tick s1) = Some s2 \<and>
    set_bytes_received bytes s2 = None"
proof -
  obtain n where n: "send_rate config = Suc n" using assms(1) by (cases "send_rate config") auto
  note r = burst_ring_run [of 1 n config b] burst_ring_last [OF assms(1,2)] burst_ring_first [OF assms(1,2)]
  have split: "(b, 0 :: u32) # replicate (send_rate config) (0, 0) = [(b, 0)] @ replicate n (0, 0) @ [(0, 0)]"
    by (simp add: n replicate_append_same)
  have append: "run_stats (xs @ ys) s = Option.bind (run_stats xs s) (run_stats ys)" for xs ys s
    by (induction xs s rule: run_stats.induct) (auto split: bind_splits)
  have "run_stats ((b, 0) # replicate (send_rate config) (0, 0)) (collector_new config) = Some (burst_ring config b 0 0)"
    unfolding split append using r(1,2,4) assms(2) by (simp add: n)
  moreover have "run_stats (replicate (send_rate config - 1) (0, 0)) (burst_ring config b 0 1) =
      Some (burst_ring config b 0 (send_rate config))"
    using r(1) [of 0] assms(2) by (simp add: n)
  ultimately show ?thesis using r(3) [OF assms(3)] r(5,6) by auto
qed

theorem unreported_tick_panics_witness:
  "\<exists>s s1 s2. run_stats ((500, 0) # replicate 30 (0, 0)) (collector_new default_config) = Some s \<and>
    set_bytes_sent 0 s = Some s1 \<and>
    run_stats (replicate 29 (0, 0)) (collector_tick s1) = Some s2 \<and> set_bytes_received 7 s2 = None"
  using unreported_tick_panics [of default_config 500 7] by simp
end
