(* ===== verification/Client.thy ===== *)
theory Client
  imports Connection Ticker Stats
begin

text \<open>
  The client of \<open>src/client.rs\<close>: one connection over one socket, with a ticker, traffic statistics and a
  queue of events. Every method is a function on the client's state; the clock, name resolution and the
  random connection id are arguments. A \<open>Result\<close> of the source is a sum, a panic is \<open>None\<close>.
\<close>

datatype client_event =
    Client_Connection
  | Client_ConnectionFailed
  | Client_ConnectionLost bool
  | Client_ConnectionClosed bool
  | Client_Message bytes
  | Client_PacketLost bytes
  | Client_ConnectionCongestionStateChanged bool

record ('s, 'r, 'm) client =
  cl_config :: config
  cl_socket :: "'s option"
  cl_connection :: "('r, 'm) connection option"
  cl_ticker :: ticker
  cl_peer_address :: "socket_addr option"
  cl_local_address :: "socket_addr option"
  cl_events :: "client_event list"
  cl_should_receive :: bool
  cl_stats_collector :: stats_collector
  cl_stats :: stats

definition client_new :: "config \<Rightarrow> clock \<Rightarrow> (('s, 'r, 'm) client \<times> clock) option" where
  "client_new config clk =
     do {
       (t, clk) \<leftarrow> ticker_new config clk;
       Some (\<lparr>cl_config = config, cl_socket = None, cl_connection = None, cl_ticker = t,
              cl_peer_address = None, cl_local_address = None, cl_events = [], cl_should_receive = False,
              cl_stats_collector = collector_new config,
              cl_stats = \<lparr>bytes_sent = 0, bytes_received = 0\<rparr>\<rparr>, clk)
     }"

definition client_bytes_sent :: "('s, 'r, 'm) client \<Rightarrow> u32" where
  "client_bytes_sent c = bytes_sent (cl_stats c)"

definition client_bytes_received :: "('s, 'r, 'm) client \<Rightarrow> u32" where
  "client_bytes_received c = bytes_received (cl_stats c)"

definition ok_or :: "io_error \<Rightarrow> 'a option \<Rightarrow> io_error + 'a" where
  "ok_or e x = (case x of Some a \<Rightarrow> Inr a | None \<Rightarrow> Inl e)"

definition client_peer_addr :: "('s, 'r, 'm) client \<Rightarrow> io_error + socket_addr" where
  "client_peer_addr c = ok_or AddrNotAvailable (cl_peer_address c)"

definition client_local_addr :: "('s, 'r, 'm) client \<Rightarrow> io_error + socket_addr" where
  "client_local_addr c = ok_or AddrNotAvailable (cl_local_address c)"

text \<open>
  \<open>connection()\<close> and \<open>socket()\<close> lend a mutable reference. What the caller does with it is the argument
  \<open>use\<close>, which gives the caller's result and the new value.
\<close>

definition client_connection ::
  "(('r, 'm) connection \<Rightarrow> 'a \<times> ('r, 'm) connection) \<Rightarrow> ('s, 'r, 'm) client \<Rightarrow> (io_error + 'a) \<times> ('s, 'r, 'm) client" where
  "client_connection use c =
     (case cl_connection c of
        Some connection \<Rightarrow> (let (a, connection) = use connection in (Inr a, c\<lparr>cl_connection := Some connection\<rparr>))
      | None \<Rightarrow> (Inl NotConnected, c))"

definition client_socket :: "('s \<Rightarrow> 'a \<times> 's) \<Rightarrow> ('s, 'r, 'm) client \<Rightarrow> (io_error + 'a) \<times> ('s, 'r, 'm) client" where
  "client_socket use c =
     (case cl_socket c of
        Some s \<Rightarrow> (let (a, s) = use s in (Inr a, c\<lparr>cl_socket := Some s\<rparr>))
      | None \<Rightarrow> (Inl NotConnected, c))"

definition client_config :: "('s, 'r, 'm) client \<Rightarrow> config" where
  "client_config c = cl_config c"

definition client_set_config :: "config \<Rightarrow> ('s, 'r, 'm) client \<Rightarrow> ('s, 'r, 'm) client option" where
  "client_set_config config c =
     do {
       t \<leftarrow> ticker_set_config config (cl_ticker c);
       Some (c\<lparr>cl_config := config, cl_ticker := t,
               cl_stats_collector := collector_set_config config (cl_stats_collector c),
               cl_connection := map_option (connection_set_config config) (cl_connection c)\<rparr>)
     }"

subsection \<open>Connecting\<close>

text \<open>The address \<open>0.0.0.0:0\<close> the client binds to.\<close>

definition wildcard_addr :: socket_addr where
  "wildcard_addr = V4 (0, 0, 0, 0) 0"

text \<open>
  \<open>resolve\<close> is what \<open>to_socket_addrs\<close> answers, an error or the addresses found; \<open>nth(0).unwrap()\<close> panics
  on an empty answer.
\<close>

definition client_connect ::
  "'r rate_limiter \<Rightarrow> 'm packet_modifier \<Rightarrow> 's socket \<Rightarrow> (io_error + socket_addr list) \<Rightarrow> u32 \<Rightarrow> clock \<Rightarrow>
     ('s, 'r, 'm) client \<Rightarrow> ((io_error + unit) \<times> ('s, 'r, 'm) client \<times> clock) option" where
  "client_connect R M S resolve random clk c =
     (case cl_socket c of
        Some _ \<Rightarrow> Some (Inl AlreadyExists, c, clk)
      | None \<Rightarrow>
          (case sock_new S wildcard_addr (packet_max_size (cl_config c)) of
             Inl e \<Rightarrow> Some (Inl e, c, clk)
           | Inr s \<Rightarrow>
               (case resolve of
                  Inl e \<Rightarrow> Some (Inl e, c, clk)
                | Inr addrs \<Rightarrow>
                    do {
                      peer_addr \<leftarrow> checked_nth addrs 0;
                      case sock_local_addr S s of
                        Inl e \<Rightarrow> Some (Inl e, c, clk)
                      | Inr local_addr \<Rightarrow>
                          (let (limiter, clk) = rl_new R (cl_config c) clk;
                               (connection, clk) =
                                 connection_new (cl_config c) local_addr peer_addr limiter
                                   (pm_new M (cl_config c)) random clk
                           in Some (Inr (),
                                c\<lparr>cl_socket := Some s, cl_peer_address := Some peer_addr,
                                  cl_local_address := Some local_addr, cl_connection := Some connection,
                                  cl_should_receive := True\<rparr>, clk))
                    })))"

subsection \<open>Receiving\<close>

fun client_event_of :: "connection_event \<Rightarrow> client_event" where
  "client_event_of Connected_Event = Client_Connection"
| "client_event_of FailedToConnect_Event = Client_ConnectionFailed"
| "client_event_of (Lost_Event by_remote) = Client_ConnectionLost by_remote"
| "client_event_of (Closed_Event by_remote) = Client_ConnectionClosed by_remote"
| "client_event_of (Message_Event payload) = Client_Message payload"
| "client_event_of (CongestionStateChanged_Event c) = Client_ConnectionCongestionStateChanged c"
| "client_event_of (PacketLost_Event payload) = Client_PacketLost payload"

text \<open>The body of the loop over the packets of the socket; \<open>bytes_received\<close> is the running count.\<close>

definition client_packet ::
  "'m packet_modifier \<Rightarrow> socket_addr \<Rightarrow> socket_addr \<Rightarrow> bytes \<Rightarrow> nat \<times> ('r, 'm) connection \<times> clock \<Rightarrow>
     (nat \<times> ('r, 'm) connection \<times> clock) option" where
  "client_packet M peer addr packet = (\<lambda>(received, connection, clk).
     if addr = peer then
       do {
         (_, connection, clk) \<leftarrow> receive_packet M packet clk connection;
         Some (received + length packet, connection, clk)
       }
     else Some (received, connection, clk))"

text \<open>The part of \<open>receive\<close> that runs once per tick.\<close>

definition client_receive_tick ::
  "'m packet_modifier \<Rightarrow> 's socket \<Rightarrow> clock \<Rightarrow> ('s, 'r, 'm) client \<Rightarrow> (('s, 'r, 'm) client \<times> clock) option" where
  "client_receive_tick M S clk c =
     do {
       let (t, clk) = begin_tick clk (cl_ticker c);
       peer \<leftarrow> cl_peer_address c;
       s \<leftarrow> cl_socket c;
       connection \<leftarrow> cl_connection c;
       ((received, connection, clk), s) \<leftarrow>
         recv_loop S (client_packet M peer) s (0, connection, clk);
       collector \<leftarrow> set_bytes_received (word_of_nat received) (cl_stats_collector c);
       let (es, connection) = connection_events connection;
       Some (c\<lparr>cl_ticker := t, cl_socket := Some s, cl_connection := Some connection,
               cl_stats_collector := collector, cl_events := cl_events c @ map client_event_of es,
               cl_should_receive := False\<rparr>, clk)
     }"

definition client_receive ::
  "'m packet_modifier \<Rightarrow> 's socket \<Rightarrow> clock \<Rightarrow> ('s, 'r, 'm) client \<Rightarrow>
     ((try_recv_error + client_event) \<times> ('s, 'r, 'm) client \<times> clock) option" where
  "client_receive M S clk c =
     (if cl_socket c = None then Some (Inl Disconnected, c, clk)
      else
        do {
          (c, clk) \<leftarrow> (if cl_should_receive c then client_receive_tick M S clk c else Some (c, clk));
          Some (case cl_events c of
                  e # es \<Rightarrow> (Inr e, c\<lparr>cl_events := es\<rparr>, clk)
                | [] \<Rightarrow> (Inl Empty, c, clk))
        })"

subsection \<open>Sending\<close>

text \<open>The duration in the result is the time the thread sleeps.\<close>

definition client_send ::
  "'r rate_limiter \<Rightarrow> 'm packet_modifier \<Rightarrow> 's socket \<Rightarrow> bool \<Rightarrow> clock \<Rightarrow> ('s, 'r, 'm) client \<Rightarrow>
     ((io_error + unit) \<times> duration \<times> ('s, 'r, 'm) client \<times> clock) option" where
  "client_send R M S auto_tick clk c =
     (case cl_socket c of
        None \<Rightarrow> Some (Inl NotConnected, 0, c, clk)
      | Some s \<Rightarrow>
          do {
            peer \<leftarrow> cl_peer_address c;
            connection \<leftarrow> cl_connection c;
            (sent, connection, s, clk) \<leftarrow> send_packet R M S peer clk connection s;
            collector \<leftarrow> set_bytes_sent sent (cl_stats_collector c);
            let collector = collector_tick collector;
            let c = c\<lparr>cl_socket := Some s, cl_connection := Some connection,
                      cl_stats_collector := collector, cl_stats := average collector,
                      cl_should_receive := True\<rparr>;
            (sleep, t, clk) \<leftarrow> (if auto_tick then end_tick clk (cl_ticker c) else Some (0, cl_ticker c, clk));
            Some (Inr (), sleep, c\<lparr>cl_ticker := t\<rparr>, clk)
          })"

subsection \<open>Reset and disconnect\<close>

definition client_reset ::
  "'r rate_limiter \<Rightarrow> clock \<Rightarrow> ('s, 'r, 'm) client \<Rightarrow> ((io_error + unit) \<times> ('s, 'r, 'm) client \<times> clock) option" where
  "client_reset R clk c =
     (if cl_socket c = None then Some (Inl NotConnected, c, clk)
      else
        do {
          connection \<leftarrow> cl_connection c;
          let (connection, clk) = connection_reset R clk connection;
          let (t, clk) = ticker_reset clk (cl_ticker c);
          Some (Inr (),
            c\<lparr>cl_connection := Some connection, cl_stats_collector := collector_reset (cl_stats_collector c),
              cl_stats := stats_reset (cl_stats c), cl_events := [], cl_ticker := t\<rparr>, clk)
        })"

definition client_disconnect ::
  "'r rate_limiter \<Rightarrow> clock \<Rightarrow> ('s, 'r, 'm) client \<Rightarrow> ((io_error + unit) \<times> ('s, 'r, 'm) client \<times> clock) option" where
  "client_disconnect R clk c =
     (if cl_socket c = None then Some (Inl NotConnected, c, clk)
      else
        do {
          (_, c, clk) \<leftarrow> client_reset R clk c;
          Some (Inr (),
            c\<lparr>cl_should_receive := False, cl_peer_address := None, cl_local_address := None,
              cl_connection := None, cl_socket := None\<rparr>, clk)
        })"

end
