(* ===== verification/Queue_Sending.thy ===== *)
theory Queue_Sending
  imports Message_Queue
begin

text \<open>
  The sending side of the message queue: which messages \<open>send_packet\<close> takes, in which order they
  appear in the packet, that the packet stays within its budget, and that the default quotas (like
  any that add up to at most 100 percent) keep the budget arithmetic from underflowing.
\<close>

subsection \<open>Bytes of a message and fronts that do not fit\<close>

definition wire_cost :: "message \<Rightarrow> nat" where
  "wire_cost m = unat (m_size m) + MESSAGE_HEADER_BYTES"

definition blocked :: "nat \<Rightarrow> nat \<Rightarrow> message list \<Rightarrow> bool" where
  "blocked available written queue \<longleftrightarrow>
     (case queue of [] \<Rightarrow> True | m # _ \<Rightarrow> available < written + wire_cost m)"

abbreviation total_cost :: "message list \<Rightarrow> nat" where
  "total_cost ms \<equiv> (\<Sum>m\<leftarrow>ms. wire_cost m)"

lemma write_message_cases:
  assumes "written \<le> available"
  shows "write_message queue packet available written =
    (case queue of
       [] \<Rightarrow> Some (False, [], packet, written)
     | m # rest \<Rightarrow>
         if written + wire_cost m \<le> available
         then Some (True, rest, packet @ serialize m, written + wire_cost m)
         else Some (False, queue, packet, written))"
  using assms
  by (auto simp: write_message_def wire_cost_def Let_def split: list.splits)

lemma write_messages_loop_spec:
  assumes "used \<le> available"
  shows "\<exists>ms queue'.
    write_messages_loop queue packet available used =
      Some (queue', packet @ concat (map serialize ms), used + total_cost ms) \<and>
    queue = ms @ queue' \<and> used + total_cost ms \<le> available \<and>
    blocked available (used + total_cost ms) queue'"
  using assms
proof (induction queue arbitrary: packet used)
  case Nil
  then show ?case
    by (intro exI [of _ "[]"])
      (simp add: write_messages_loop.simps [of "[]"] write_message_cases blocked_def)
next
  case (Cons m rest)
  show ?case
  proof (cases "used + wire_cost m \<le> available")
    case True
    with Cons.prems have step: "write_messages_loop (m # rest) packet available used =
        write_messages_loop rest (packet @ serialize m) available (used + wire_cost m)"
      by (simp add: write_messages_loop.simps [of "m # rest"] write_message_cases)
    from Cons.IH [OF True, of "packet @ serialize m"] obtain ms queue' where n:
      "write_messages_loop rest (packet @ serialize m) available (used + wire_cost m) =
         Some (queue', (packet @ serialize m) @ concat (map serialize ms),
               used + wire_cost m + total_cost ms)"
      "rest = ms @ queue'" "used + wire_cost m + total_cost ms \<le> available"
      "blocked available (used + wire_cost m + total_cost ms) queue'"
      by blast
    have "write_messages_loop (m # rest) packet available used =
         Some (queue', packet @ concat (map serialize (m # ms)), used + total_cost (m # ms))"
      unfolding step n(1) by (simp add: add.assoc)
    moreover have "m # rest = (m # ms) @ queue'" using n(2) by simp
    ultimately show ?thesis
      using n(3,4) by (intro exI [of _ "m # ms"] exI conjI) (simp_all add: add.assoc)
  next
    case False
    with Cons.prems have
      "write_messages_loop (m # rest) packet available used =
         Some (m # rest, packet @ concat (map serialize []), used + total_cost [])"
      "blocked available (used + total_cost []) (m # rest)"
      by (simp_all add: write_messages_loop.simps [of "m # rest"] write_message_cases blocked_def)
    with Cons.prems show ?thesis
      by (intro exI [of _ "[]"] exI [of _ "m # rest"] conjI) simp_all
  qed
qed

lemma write_messages_spec:
  "\<exists>ms queue'.
    write_messages queue packet available written =
      Some (queue', packet @ concat (map serialize ms), written + total_cost ms) \<and>
    queue = ms @ queue' \<and> total_cost ms \<le> available"
  using write_messages_loop_spec [of 0 available queue packet]
  by (auto simp: write_messages_def)

subsection \<open>Taking messages from the fronts of the three queues\<close>

type_synonym out_state = "message list \<times> message list \<times> message list \<times> bytes"

text \<open>\<open>emits s ms t\<close>: from \<open>s\<close> the messages \<open>ms\<close> are taken, each from the front of a queue, and written.\<close>

inductive emits :: "out_state \<Rightarrow> message list \<Rightarrow> out_state \<Rightarrow> bool" where
  emits_done: "emits s [] s"
| emits_instant: "emits (iq, rq, oq, p @ serialize m) ms t \<Longrightarrow> emits (m # iq, rq, oq, p) (m # ms) t"
| emits_reliable: "emits (iq, rq, oq, p @ serialize m) ms t \<Longrightarrow> emits (iq, m # rq, oq, p) (m # ms) t"
| emits_ordered: "emits (iq, rq, oq, p @ serialize m) ms t \<Longrightarrow> emits (iq, rq, m # oq, p) (m # ms) t"

inductive_simps emits_Nil [simp]: "emits s [] t"

lemma emits_trans: "emits s ms t \<Longrightarrow> emits t ns u \<Longrightarrow> emits s (ms @ ns) u"
  by (induction rule: emits.induct) (auto intro: emits.intros)

lemma emits_instants: "emits (ms @ iq, rq, oq, p) ms (iq, rq, oq, p @ concat (map serialize ms))"
  by (induction ms arbitrary: p) (auto intro: emits_instant simp flip: append_assoc)

lemma emits_reliables: "emits (iq, ms @ rq, oq, p) ms (iq, rq, oq, p @ concat (map serialize ms))"
  by (induction ms arbitrary: p) (auto intro: emits_reliable simp flip: append_assoc)

lemma emits_ordereds: "emits (iq, rq, ms @ oq, p) ms (iq, rq, oq, p @ concat (map serialize ms))"
  by (induction ms arbitrary: p) (auto intro: emits_ordered simp flip: append_assoc)

lemma emits_packet:
  "emits (iq, rq, oq, p) ms (iq', rq', oq', p') \<Longrightarrow> p' = p @ concat (map serialize ms)"
  by (induction "(iq, rq, oq, p)" ms "(iq', rq', oq', p')" arbitrary: iq rq oq p rule: emits.induct)
    auto

definition kinds_ok :: "message list \<Rightarrow> message list \<Rightarrow> message list \<Rightarrow> bool" where
  "kinds_ok iq rq oq \<longleftrightarrow>
     (\<forall>m \<in> set iq. m_kind m = Instant) \<and> (\<forall>m \<in> set rq. m_kind m = Reliable) \<and>
     (\<forall>m \<in> set oq. m_kind m = Ordered)"

abbreviation of_kind :: "message_kind \<Rightarrow> message list \<Rightarrow> message list" where
  "of_kind k ms \<equiv> filter (\<lambda>m. m_kind m = k) ms"

lemma emits_by_kind:
  "emits (iq, rq, oq, p) ms (iq', rq', oq', p') \<Longrightarrow> kinds_ok iq rq oq \<Longrightarrow>
   of_kind Instant ms @ iq' = iq \<and> of_kind Reliable ms @ rq' = rq \<and> of_kind Ordered ms @ oq' = oq"
  by (induction "(iq, rq, oq, p)" ms "(iq', rq', oq', p')" arbitrary: iq rq oq p rule: emits.induct)
    (simp_all add: kinds_ok_def)

lemma emits_set:
  "emits (iq, rq, oq, p) ms (iq', rq', oq', p') \<Longrightarrow>
   set iq \<union> set rq \<union> set oq = set ms \<union> set iq' \<union> set rq' \<union> set oq'"
  by (induction "(iq, rq, oq, p)" ms "(iq', rq', oq', p')" arbitrary: iq rq oq p rule: emits.induct)
    auto

subsection \<open>The second phase\<close>

lemma fill_round_spec:
  assumes "written \<le> available"
  shows "\<exists>again ms iq' rq' oq' packet'.
    fill_round iq rq oq packet available written =
      Some (again, iq', rq', oq', packet', written + total_cost ms) \<and>
    emits (iq, rq, oq, packet) ms (iq', rq', oq', packet') \<and>
    written + total_cost ms \<le> available \<and>
    (\<not> again \<longrightarrow> ms = [] \<and> blocked available written iq' \<and> blocked available written rq' \<and>
       blocked available written oq')"
proof -
  have one: "\<exists>again ms queue'. write_message queue p available w =
      Some (again, queue', p @ concat (map serialize ms), w + total_cost ms) \<and> queue = ms @ queue' \<and>
      w + total_cost ms \<le> available \<and> (\<not> again \<longrightarrow> ms = [] \<and> blocked available w queue')"
    if "w \<le> available" for queue p w
    using that
    by (cases queue)
      (auto simp: write_message_cases blocked_def
        intro: exI [of _ "[]"] exI [of _ "[hd queue]"])
  obtain a1 ms1 iq' where 1: "write_message iq packet available written =
      Some (a1, iq', packet @ concat (map serialize ms1), written + total_cost ms1)"
      "iq = ms1 @ iq'" "written + total_cost ms1 \<le> available"
      "\<not> a1 \<longrightarrow> ms1 = [] \<and> blocked available written iq'"
    using one [OF assms] by blast
  obtain a2 ms2 rq' where 2: "write_message rq (packet @ concat (map serialize ms1)) available
        (written + total_cost ms1) =
      Some (a2, rq', (packet @ concat (map serialize ms1)) @ concat (map serialize ms2),
        written + total_cost ms1 + total_cost ms2)"
      "rq = ms2 @ rq'" "written + total_cost ms1 + total_cost ms2 \<le> available"
      "\<not> a2 \<longrightarrow> ms2 = [] \<and> blocked available (written + total_cost ms1) rq'"
    using one [OF 1(3)] by blast
  obtain a3 ms3 oq' where 3: "write_message oq
        ((packet @ concat (map serialize ms1)) @ concat (map serialize ms2)) available
        (written + total_cost ms1 + total_cost ms2) =
      Some (a3, oq', ((packet @ concat (map serialize ms1)) @ concat (map serialize ms2))
          @ concat (map serialize ms3), written + total_cost ms1 + total_cost ms2 + total_cost ms3)"
      "oq = ms3 @ oq'" "written + total_cost ms1 + total_cost ms2 + total_cost ms3 \<le> available"
      "\<not> a3 \<longrightarrow> ms3 = [] \<and> blocked available (written + total_cost ms1 + total_cost ms2) oq'"
    using one [OF 2(3)] by blast
  let ?p1 = "packet @ concat (map serialize ms1)"
  let ?p2 = "?p1 @ concat (map serialize ms2)" let ?p3 = "?p2 @ concat (map serialize ms3)"
  have "emits (iq, rq, oq, packet) (ms1 @ ms2 @ ms3) (iq', rq', oq', ?p3)"
    unfolding 1(2) 2(2) 3(2)
    by (rule emits_trans [OF emits_instants emits_trans [OF emits_reliables emits_ordereds]])
  moreover have "fill_round iq rq oq packet available written =
      Some (a1 \<or> a2 \<or> a3, iq', rq', oq', ?p3, written + total_cost (ms1 @ ms2 @ ms3))"
    using 1(1) 2(1) 3(1) by (simp add: fill_round_def add.assoc)
  moreover have "written + total_cost (ms1 @ ms2 @ ms3) \<le> available"
    using 3(3) by (simp add: add.assoc)
  moreover have "\<not> (a1 \<or> a2 \<or> a3) \<longrightarrow> ms1 @ ms2 @ ms3 = [] \<and> blocked available written iq' \<and>
      blocked available written rq' \<and> blocked available written oq'"
    using 1(4) 2(4) 3(4) by auto
  ultimately show ?thesis by (intro exI conjI)
qed

lemma fill_loop_spec:
  assumes "written \<le> available"
  shows "\<exists>ms iq' rq' oq' packet' written'.
    fill_loop iq rq oq packet available written = Some (iq', rq', oq', packet', written') \<and>
    emits (iq, rq, oq, packet) ms (iq', rq', oq', packet') \<and>
    written' = written + total_cost ms \<and> written' \<le> available \<and>
    blocked available written' iq' \<and> blocked available written' rq' \<and> blocked available written' oq'"
  using assms
proof (induction iq rq oq packet available written rule: fill_loop.induct)
  case (1 iq rq oq packet available written)
  obtain again ms iq' rq' oq' packet' where r:
    "fill_round iq rq oq packet available written =
      Some (again, iq', rq', oq', packet', written + total_cost ms)"
    "emits (iq, rq, oq, packet) ms (iq', rq', oq', packet')"
    "written + total_cost ms \<le> available"
    "\<not> again \<longrightarrow> ms = [] \<and> blocked available written iq' \<and> blocked available written rq' \<and>
       blocked available written oq'"
    using fill_round_spec [OF "1.prems"] by blast
  show ?case
  proof (cases again)
    case False
    with r(4) have b: "ms = []" "blocked available written iq'" "blocked available written rq'"
      "blocked available written oq'" by simp_all
    from r(1,3) False b(1) have "fill_loop iq rq oq packet available written =
        Some (iq', rq', oq', packet', written)"
      by (simp add: fill_loop.simps [of iq])
    moreover have "written = written + total_cost ms" "written \<le> available"
      using r(3) b(1) by simp_all
    ultimately show ?thesis using r(2) b(2-4) by (intro exI conjI)
  next
    case True
    from "1.IH" [OF r(1) refl refl refl refl refl True r(3)] obtain ns iq2 rq2 oq2 p2 w2 where n:
      "fill_loop iq' rq' oq' packet' available (written + total_cost ms) = Some (iq2, rq2, oq2, p2, w2)"
      "emits (iq', rq', oq', packet') ns (iq2, rq2, oq2, p2)"
      "w2 = written + total_cost ms + total_cost ns" "w2 \<le> available"
      "blocked available w2 iq2" "blocked available w2 rq2" "blocked available w2 oq2"
      by blast
    from r(1) n(1) True have "fill_loop iq rq oq packet available written =
        Some (iq2, rq2, oq2, p2, w2)"
      by (simp add: fill_loop.simps [of iq])
    moreover have "w2 = written + total_cost (ms @ ns)"
      using n(3) by simp
    ultimately show ?thesis
      using emits_trans [OF r(2) n(2)] n(4-7) by (intro exI conjI)
  qed
qed


subsection \<open>The packet that \<open>send_packet\<close> builds\<close>

definition quotas_fit :: "nat \<Rightarrow> config \<Rightarrow> bool" where
  "quotas_fit available config \<longleftrightarrow>
     quota_space available (message_quota_instant config) +
     quota_space available (message_quota_reliable config) +
     quota_space available (message_quota_ordered config) \<le> available"

lemma mq_send_packet_spec:
  assumes "quotas_fit available (mq_config q)"
  shows "\<exists>ms iq rq oq.
    mq_send_packet packet available q =
      Some (packet @ concat (map serialize ms), q\<lparr>i_queue := iq, r_queue := rq, o_queue := oq\<rparr>) \<and>
    emits (i_queue q, r_queue q, o_queue q, packet) ms
      (iq, rq, oq, packet @ concat (map serialize ms)) \<and>
    total_cost ms \<le> available \<and>
    blocked available (total_cost ms) iq \<and> blocked available (total_cost ms) rq \<and>
    blocked available (total_cost ms) oq"
proof -
  let ?qi = "quota_space available (message_quota_instant (mq_config q))"
  let ?qr = "quota_space available (message_quota_reliable (mq_config q))"
  let ?qo = "quota_space available (message_quota_ordered (mq_config q))"
  obtain ms1 iq1 where 1:
    "write_messages (i_queue q) packet ?qi 0 =
       Some (iq1, packet @ concat (map serialize ms1), 0 + total_cost ms1)"
    "i_queue q = ms1 @ iq1" "total_cost ms1 \<le> ?qi"
    using write_messages_spec by blast
  let ?p1 = "packet @ concat (map serialize ms1)"
  obtain ms2 rq1 where 2:
    "write_messages (r_queue q) ?p1 ?qr (0 + total_cost ms1) =
       Some (rq1, ?p1 @ concat (map serialize ms2), 0 + total_cost ms1 + total_cost ms2)"
    "r_queue q = ms2 @ rq1" "total_cost ms2 \<le> ?qr"
    using write_messages_spec by blast
  let ?p2 = "?p1 @ concat (map serialize ms2)"
  obtain ms3 oq1 where 3:
    "write_messages (o_queue q) ?p2 ?qo (0 + total_cost ms1 + total_cost ms2) =
       Some (oq1, ?p2 @ concat (map serialize ms3),
             0 + total_cost ms1 + total_cost ms2 + total_cost ms3)"
    "o_queue q = ms3 @ oq1" "total_cost ms3 \<le> ?qo"
    using write_messages_spec by blast
  let ?p3 = "?p2 @ concat (map serialize ms3)"
  let ?w = "0 + total_cost ms1 + total_cost ms2 + total_cost ms3"
  have "?w \<le> available"
    using assms 1(3) 2(3) 3(3) by (simp add: quotas_fit_def)
  from fill_loop_spec [OF this, of iq1 rq1 oq1 ?p3] obtain ms4 iq rq oq p4 w4 where 4:
    "fill_loop iq1 rq1 oq1 ?p3 available ?w = Some (iq, rq, oq, p4, w4)"
    "emits (iq1, rq1, oq1, ?p3) ms4 (iq, rq, oq, p4)" "w4 = ?w + total_cost ms4" "w4 \<le> available"
    "blocked available w4 iq" "blocked available w4 rq" "blocked available w4 oq"
    by blast
  let ?ms = "ms1 @ ms2 @ ms3 @ ms4"
  have e: "emits (i_queue q, r_queue q, o_queue q, packet) ?ms (iq, rq, oq, p4)"
    unfolding 1(2) 2(2) 3(2)
    by (rule emits_trans [OF emits_instants emits_trans [OF emits_reliables
          emits_trans [OF emits_ordereds 4(2)]]])
  have p4: "p4 = packet @ concat (map serialize ?ms)" by (rule emits_packet [OF e])
  have w4: "w4 = total_cost ?ms" using 4(3) by simp
  have "mq_send_packet packet available q =
      Some (p4, q\<lparr>i_queue := iq, r_queue := rq, o_queue := oq\<rparr>)"
    using 1(1) 2(1) 3(1) 4(1) by (simp add: mq_send_packet_def)
  then show ?thesis
    using e 4(4-7) unfolding p4 w4 by (intro exI conjI)
qed

subsection \<open>Quotas that add up to at most 100 percent fit\<close>

lemma quota_space_le:
  assumes "available < 2 ^ 22" "0 \<le> q" "q \<le> 100"
  shows "(of_nat (quota_space available (Fin q)) :: rat)
    \<le> of_nat available * q / 100 * (1 + 1 / 2 ^ 22) + 1 / 2 ^ 100"
proof -
  let ?a = "of_nat available :: rat"
  have a: "0 \<le> ?a" "?a < 2 ^ 22"
    using assms(1) by (simp, metis of_nat_less_iff of_nat_numeral of_nat_power)
  have fa: "f32_of_nat available = Fin ?a"
    using assms(1) by (simp add: f32_of_nat_small)
  obtain z where z: "f32_round (?a / 100) = Fin z"
    using f32_round_finite [of "?a / 100"] a by (auto simp: abs_if)
  have z0: "0 \<le> z" by (rule f32_round_nonneg [OF _ z]) (use a in simp)
  have z1: "z \<le> ?a / 100 * (1 + 1 / 2 ^ 24) + 1 / 2 ^ 150"
    by (rule f32_round_le [OF z]) (use a in simp)
  have zq: "z * q \<le> (?a / 100 * (1 + 1 / 2 ^ 24) + 1 / 2 ^ 150) * q"
    using z1 assms(2) by (rule mult_right_mono)
  have aq: "0 \<le> ?a * q" "?a * q \<le> 2 ^ 22 * 100"
    using a(1) assms(2) mult_mono [of ?a "2 ^ 22" q 100] a assms(3) by simp_all
  have zq2: "z * q \<le> ?a * q / 100 * (1 + 1 / 2 ^ 24) + 100 / 2 ^ 150"
    using zq assms(3) by (simp add: algebra_simps)
  then have "z * q \<le> 2 ^ 127" using aq by (simp add: field_simps)
  then obtain y where y: "f32_round (z * q) = Fin y"
    using f32_round_finite [of "z * q"] abs_of_nonneg [OF mult_nonneg_nonneg [OF z0 assms(2)]]
    by auto
  have y0: "0 \<le> y" by (rule f32_round_nonneg [OF _ y]) (use z0 assms(2) in simp)
  have y1: "y \<le> z * q * (1 + 1 / 2 ^ 24) + 1 / 2 ^ 150"
    by (rule f32_round_le [OF y]) (use z0 assms(2) in simp)
  have "quota_space available (Fin q) = nat (min (2 ^ 64 - 1) \<lfloor>y\<rfloor>)"
    by (simp add: quota_space_def fa z y f32_to_usize_def)
  then have "(of_nat (quota_space available (Fin q)) :: rat) \<le> y"
    using y0 by (simp add: of_nat_nat min_def)
  also have "\<dots> \<le> ?a * q / 100 * (1 + 1 / 2 ^ 22) + 1 / 2 ^ 100"
    using y1 zq2 aq by (simp add: field_simps)
  finally show ?thesis .
qed

lemma quotas_fit_percent:
  assumes "available < 2 ^ 22"
    and "message_quota_instant config = Fin qi" "message_quota_reliable config = Fin qr"
      "message_quota_ordered config = Fin qo"
    and "0 \<le> qi" "0 \<le> qr" "0 \<le> qo" "qi + qr + qo \<le> 100"
  shows "quotas_fit available config"
proof -
  let ?a = "of_nat available :: rat" let ?s = "\<lambda>q. of_nat (quota_space available (Fin q)) :: rat"
  have "?a \<le> of_nat (2 ^ 22 - 1)" using assms(1) by (intro of_nat_mono) simp
  then have a: "0 \<le> ?a" "?a \<le> 2 ^ 22 - 1" by simp_all
  have "?s qi + ?s qr + ?s qo \<le>
      ?a * (qi + qr + qo) / 100 * (1 + 1 / 2 ^ 22) + 3 / 2 ^ 100"
    using quota_space_le [OF assms(1), of qi] quota_space_le [OF assms(1), of qr]
      quota_space_le [OF assms(1), of qo] assms(5-8)
    by (simp add: field_simps)
  also have "\<dots> \<le> ?a * 100 / 100 * (1 + 1 / 2 ^ 22) + 3 / 2 ^ 100"
    using mult_left_mono [OF assms(8) a(1)] by (simp add: field_simps)
  also have "\<dots> < ?a + 1" using a by (simp add: field_simps)
  finally have "(of_nat (quota_space available (Fin qi) + quota_space available (Fin qr) +
      quota_space available (Fin qo)) :: rat) < of_nat (available + 1)" by simp
  then show ?thesis
    unfolding of_nat_less_iff by (simp add: quotas_fit_def assms(2-4))
qed


text \<open>Quotas in percent that together do not exceed the packet, as the default ones do.\<close>

definition percent_quotas :: "config \<Rightarrow> bool" where
  "percent_quotas config \<longleftrightarrow>
     (case (message_quota_instant config, message_quota_reliable config, message_quota_ordered config) of
        (Fin i, Fin r, Fin o') \<Rightarrow> 0 \<le> i \<and> 0 \<le> r \<and> 0 \<le> o' \<and> i + r + o' \<le> 100
      | _ \<Rightarrow> False)"

lemma percent_quotas_fit: "percent_quotas config \<Longrightarrow> available < 2 ^ 22 \<Longrightarrow> quotas_fit available config"
  by (auto simp: percent_quotas_def intro: quotas_fit_percent split: f32.splits)

lemma percent_quotas_default [simp]: "percent_quotas default_config"
  by (simp add: percent_quotas_def)

subsection \<open>The outgoing queues stay well formed\<close>

definition send_wf :: "message_queue \<Rightarrow> bool" where
  "send_wf q \<longleftrightarrow>
     kinds_ok (i_queue q) (r_queue q) (o_queue q) \<and>
     (\<forall>m \<in> set (i_queue q) \<union> set (r_queue q) \<union> set (o_queue q). wf_message m) \<and>
     unat (local_order_id q) < 4096"

lemma wire_cost_wf: "wf_message m \<Longrightarrow> wire_cost m = length (serialize m)"
  by (simp add: wf_message_def wire_cost_def MESSAGE_HEADER_BYTES_def)

lemma total_cost_wf:
  "(\<And>m. m \<in> set ms \<Longrightarrow> wf_message m) \<Longrightarrow> total_cost ms = length (concat (map serialize ms))"
  by (induction ms) (simp_all add: wire_cost_wf)

lemma next_order_unat:
  assumes "unat n < 4096"
  shows "unat (next_order n) = (unat n + 1) mod 4096"
proof -
  have u: "unat (n + 1) = unat n + 1"
    using assms by (simp add: unat_word_ariths)
  have "n + 1 = 4096 \<longleftrightarrow> unat n + 1 = 4096"
    unfolding word_unat_eq_iff u by simp
  then show ?thesis
    using assms u by (auto simp: next_order_def MAX_ORDER_ID_def)
qed

lemma next_order_bound: "unat n < 4096 \<Longrightarrow> unat (next_order n) < 4096"
  by (simp add: next_order_unat)

lemma send_wf_new: "send_wf (mq_new config)"
  by (simp add: send_wf_def mq_new_def kinds_ok_def)

lemma send_wf_reset: "send_wf (mq_reset q)"
  by (simp add: send_wf_def mq_reset_def kinds_ok_def)

lemma send_wf_send:
  assumes "send_wf q" "length payload < 65536"
  shows "send_wf (mq_send kind payload q)"
proof -
  have "unat (word_of_nat (length payload) :: u16) = length payload"
    using assms(2) by (simp add: unat_of_nat)
  with assms(1) show ?thesis
    by (cases kind)
      (auto simp: send_wf_def mq_send_def Let_def kinds_ok_def wf_message_def next_order_bound)
qed

text \<open>The messages a packet carries, as the receiver parses them, from a well-formed sender.\<close>

lemma mq_send_packet_wf:
  assumes "send_wf q" "quotas_fit available (mq_config q)"
  obtains ms iq rq oq where
    "mq_send_packet packet available q =
       Some (packet @ concat (map serialize ms), q\<lparr>i_queue := iq, r_queue := rq, o_queue := oq\<rparr>)"
    "messages_from_packet (concat (map serialize ms)) = ms"
    "i_queue q = of_kind Instant ms @ iq" "r_queue q = of_kind Reliable ms @ rq"
    "o_queue q = of_kind Ordered ms @ oq"
    "length (concat (map serialize ms)) \<le> available"
    "\<And>m. m \<in> set ms \<union> set iq \<union> set rq \<union> set oq \<Longrightarrow> wf_message m"
    "blocked available (length (concat (map serialize ms))) iq"
    "blocked available (length (concat (map serialize ms))) rq"
    "blocked available (length (concat (map serialize ms))) oq"
proof -
  from mq_send_packet_spec [OF assms(2), of packet] obtain ms iq rq oq where s:
    "mq_send_packet packet available q =
       Some (packet @ concat (map serialize ms), q\<lparr>i_queue := iq, r_queue := rq, o_queue := oq\<rparr>)"
    "emits (i_queue q, r_queue q, o_queue q, packet) ms
       (iq, rq, oq, packet @ concat (map serialize ms))"
    "total_cost ms \<le> available"
    "blocked available (total_cost ms) iq" "blocked available (total_cost ms) rq"
    "blocked available (total_cost ms) oq"
    by blast
  have wf: "wf_message m" if "m \<in> set ms \<union> set iq \<union> set rq \<union> set oq" for m
    using emits_set [OF s(2)] that assms(1) unfolding send_wf_def by blast
  have "messages_from_packet (concat (map serialize ms)) = ms"
    using parse_concat_serialize [of ms "[]"] wf by (simp add: messages_from_packet_parse)
  moreover have "total_cost ms = length (concat (map serialize ms))"
    using wf by (intro total_cost_wf) auto
  moreover have "of_kind Instant ms @ iq = i_queue q \<and> of_kind Reliable ms @ rq = r_queue q \<and>
      of_kind Ordered ms @ oq = o_queue q"
    using emits_by_kind [OF s(2)] assms(1) by (simp add: send_wf_def)
  ultimately show thesis
    using s wf that by metis
qed

lemma send_wf_send_packet:
  assumes "send_wf q" "quotas_fit available (mq_config q)"
    "mq_send_packet packet available q = Some (packet', q')"
  shows "send_wf q'"
proof (rule mq_send_packet_wf [OF assms(1,2), of packet])
  fix ms iq rq oq
  assume s: "mq_send_packet packet available q =
      Some (packet @ concat (map serialize ms), q\<lparr>i_queue := iq, r_queue := rq, o_queue := oq\<rparr>)"
    and queues: "i_queue q = of_kind Instant ms @ iq" "r_queue q = of_kind Reliable ms @ rq"
      "o_queue q = of_kind Ordered ms @ oq"
    and wf: "\<And>m. m \<in> set ms \<union> set iq \<union> set rq \<union> set oq \<Longrightarrow> wf_message m"
  have "kinds_ok (of_kind Instant ms @ iq) (of_kind Reliable ms @ rq) (of_kind Ordered ms @ oq)"
    using assms(1) unfolding send_wf_def queues [symmetric] by (rule conjunct1)
  then have "kinds_ok iq rq oq" unfolding kinds_ok_def set_append by blast
  moreover have "q' = q\<lparr>i_queue := iq, r_queue := rq, o_queue := oq\<rparr>"
    using s assms(3) by simp
  moreover have "unat (local_order_id q) < 4096"
    using assms(1) by (simp add: send_wf_def)
  ultimately show ?thesis
    using wf unfolding send_wf_def by auto
qed

subsection \<open>Messages of a lost packet\<close>

lemma fold_requeue:
  "fold requeue_message ms q =
     q\<lparr>r_queue := rev (of_kind Reliable ms) @ r_queue q,
       o_queue := rev (of_kind Ordered ms) @ o_queue q\<rparr>"
proof (induction ms arbitrary: q)
  case (Cons m ms)
  show ?case
    unfolding fold_simps Cons.IH by (cases "m_kind m") (simp_all add: requeue_message_def)
qed simp

lemma mq_lost_packet_queues:
  "mq_lost_packet packet q =
     q\<lparr>r_queue := rev (of_kind Reliable (parse packet)) @ r_queue q,
       o_queue := rev (of_kind Ordered (parse packet)) @ o_queue q\<rparr>"
  by (simp add: mq_lost_packet_def fold_requeue messages_from_packet_parse)

lemma send_wf_lost_packet:
  "send_wf q \<Longrightarrow> (\<And>m. m \<in> set (parse packet) \<Longrightarrow> wf_message m) \<Longrightarrow> send_wf (mq_lost_packet packet q)"
  by (auto simp: mq_lost_packet_queues send_wf_def kinds_ok_def)

end
