(* ===== verification/Queue_Receiving.thy ===== *)
theory Queue_Receiving
  imports Queue_Sending
begin

text \<open>
  The receiving side of the message queue. Ordered messages are numbered by the sender; the receiver
  hands them on in that order whatever order, and however often, they arrive. The specification
  works on unbounded numbers: after the arrivals \<open>ns\<close> the messages \<open>0 \<dots> k - 1\<close> are delivered, where \<open>k\<close>
  is the least number that has not arrived. The heap keeps messages by raw order id, so this holds
  while the numbers in flight do not cross the wrap-around at 4096; a closed example shows what
  happens when they do.
\<close>

interpretation order_ids: serial_order unat 4096 order_is_more_recent
proof unfold_locales
  fix a b :: u16
  assume "unat a < 4096" "unat b < 4096"
  then show "order_is_more_recent a b \<longleftrightarrow>
      unat b < unat a \<and> unat a - unat b \<le> 4096 div 2 \<or>
      unat a < unat b \<and> 4096 div 2 < unat b - unat a"
    by (auto simp: order_is_more_recent_def MAX_ORDER_ID_def word_less_nat_alt word_le_nat_alt unat_sub)
qed (simp_all add: word_unat_eq_iff)

subsection \<open>The specification\<close>

definition delivered_count :: "nat list \<Rightarrow> nat" where
  "delivered_count ns = length (takeWhile (\<lambda>n. n \<in> set ns) [0..<Suc (length ns)])"

lemma delivered_count_eqI:
  assumes "\<And>i. i < k \<Longrightarrow> i \<in> set ns" "k \<notin> set ns"
  shows "delivered_count ns = k"
proof -
  have "{..<k} \<subseteq> set ns" using assms(1) by auto
  then have "k \<le> card (set ns)" by (metis List.finite_set card_lessThan card_mono)
  then have k: "k \<le> length ns" using card_length order_trans by blast
  then have "[0..<Suc (length ns)] = [0..<k] @ k # [Suc k..<Suc (length ns)]"
    using upt_add_eq_append [of 0 k "Suc (length ns) - k"] by (simp add: upt_conv_Cons)
  moreover have "takeWhile (\<lambda>n. n \<in> set ns) ([0..<k] @ k # [Suc k..<Suc (length ns)]) = [0..<k]"
    using assms by (simp add: takeWhile_append)
  ultimately show ?thesis by (simp add: delivered_count_def)
qed

lemma exists_least_missing: "\<exists>k. (\<forall>i < k. i \<in> set ns) \<and> k \<notin> set (ns :: nat list)"
proof -
  have "\<exists>k. k \<notin> set ns" using ex_new_if_finite [OF infinite_UNIV_nat List.finite_set] by blast
  then have "(LEAST k. k \<notin> set ns) \<notin> set ns" by (rule LeastI_ex)
  moreover have "i \<in> set ns" if "i < (LEAST k. k \<notin> set ns)" for i
    using not_less_Least [OF that] by simp
  ultimately show ?thesis by blast
qed

lemma delivered_count_arrived: "i < delivered_count ns \<Longrightarrow> i \<in> set ns"
  using exists_least_missing [of ns] delivered_count_eqI [of _ ns] by metis

lemma delivered_count_missing: "delivered_count ns \<notin> set ns"
  using exists_least_missing [of ns] delivered_count_eqI [of _ ns] by metis

text \<open>The sender's numbering: the \<open>n\<close>-th message after the order id \<open>b\<close>.\<close>

definition order_no :: "nat \<Rightarrow> nat \<Rightarrow> u16" where
  "order_no b n = word_of_nat ((b + n) mod 4096)"

definition numbered :: "nat \<Rightarrow> (nat \<Rightarrow> message) \<Rightarrow> bool" where
  "numbered b msg \<longleftrightarrow> (\<forall>n. m_kind (msg n) = Ordered \<and> m_order (msg n) = order_no b n)"

lemma unat_order_no [simp]: "unat (order_no b n) = (b + n) mod 4096"
  by (simp add: order_no_def unat_of_nat)

lemma order_no_bound: "unat (order_no b n) < 4096"
  by simp

lemma next_order_no: "next_order (order_no b n) = order_no b (Suc n)"
proof (rule word_unat_eq_iff [THEN iffD2])
  show "unat (next_order (order_no b n)) = unat (order_no b (Suc n))"
    by (simp only: next_order_unat [OF order_no_bound] unat_order_no add_Suc_right) (simp add: mod_Suc_eq)
qed

lemma order_no_inject:
  assumes "b + n < 4096" "b + k \<le> 4096" "k \<le> n"
  shows "order_no b n = order_no b k \<longleftrightarrow> n = k"
proof
  assume "order_no b n = order_no b k"
  then have "(b + n) mod 4096 = (b + k) mod 4096" by (metis unat_order_no)
  with assms show "n = k" by auto
qed simp

lemma order_no_less: "b + n < 4096 \<Longrightarrow> k < n \<Longrightarrow> order_no b k < order_no b n"
  by (simp add: word_less_nat_alt)

subsection \<open>Draining the heap\<close>

fun run_end :: "nat \<Rightarrow> nat list \<Rightarrow> nat" where
  "run_end j [] = j"
| "run_end j (n # ns) = (if n = j then run_end (Suc j) ns else j)"

lemma run_end_ge: "j \<le> run_end j ns"
  by (induction ns arbitrary: j) (auto intro: Suc_leD)

lemma run_end_arrived: "j \<le> i \<Longrightarrow> i < run_end j ns \<Longrightarrow> i \<in> set ns"
proof (induction ns arbitrary: j)
  case (Cons n ns)
  then show ?case
    by (cases "i = j") (auto split: if_splits intro: Cons.IH [of "Suc j"])
qed simp

lemma run_end_missing: "sorted_wrt (<) ns \<Longrightarrow> (\<And>n. n \<in> set ns \<Longrightarrow> j \<le> n) \<Longrightarrow> run_end j ns \<notin> set ns"
proof (induction ns arbitrary: j)
  case (Cons n ns)
  show ?case
  proof (cases "n = j")
    case True
    with Cons.prems have "run_end (Suc j) ns \<notin> set ns"
      by (intro Cons.IH) (auto simp: Suc_le_eq)
    with True run_end_ge [of "Suc j" ns] show ?thesis by auto
  next
    case False
    with Cons.prems show ?thesis by fastforce
  qed
qed simp

lemma drain_heap_run:
  assumes "numbered b msg" "sorted_wrt (<) ns" "\<And>n. n \<in> set ns \<Longrightarrow> j \<le> n \<and> b + n < 4096"
    "b + j \<le> 4096"
    "remote_order_id q = order_no b j" "o_recv_heap q = map msg ns" "o_recv_set q = order_no b ` set ns"
  shows "drain_heap q =
    q\<lparr>recv_queue := recv_queue q @ map msg [j..<run_end j ns],
      remote_order_id := order_no b (run_end j ns),
      o_recv_heap := map msg (filter (\<lambda>n. run_end j ns \<le> n) ns),
      o_recv_set := order_no b ` {n \<in> set ns. run_end j ns \<le> n}\<rparr>"
  using assms(2-)
proof (induction ns arbitrary: j q)
  case Nil
  then show ?case by (simp add: drain_heap.simps [of q] heap_peek_def)
next
  case (Cons n ns)
  have msg: "m_order (msg n) = order_no b n" using assms(1) by (simp add: numbered_def)
  have n: "j \<le> n" "b + n < 4096" using Cons.prems(2) [of n] by auto
  show ?case
  proof (cases "n = j")
    case False
    then have "order_no b n \<noteq> order_no b j"
      using order_no_inject [OF n(2) Cons.prems(3) n(1)] by simp
    then have "drain_heap q = q"
      using Cons.prems(4,5) msg by (simp add: drain_heap.simps [of q] heap_peek_def)
    moreover have "filter (\<lambda>i. j \<le> i) ns = ns"
      using Cons.prems(2) by (intro filter_True) auto
    moreover have "{i. (i = n \<or> i \<in> set ns) \<and> j \<le> i} = insert n (set ns)"
      using Cons.prems(2) by auto
    ultimately show ?thesis
      using False n(1) Cons.prems(4-6) by simp
  next
    case True
    let ?q = "q\<lparr>o_recv_set := order_no b ` set ns, o_recv_heap := map msg ns,
        recv_queue := recv_queue q @ [msg n], remote_order_id := order_no b (Suc j)\<rparr>"
    have ge: "Suc j \<le> i \<and> b + i < 4096" if "i \<in> set ns" for i
      using Cons.prems(1) Cons.prems(2) [of i] that True by (auto simp: Suc_le_eq)
    have "order_no b i \<noteq> order_no b j" if "i \<in> set ns" for i
      using order_no_inject [of b i j] ge [OF that] Cons.prems(3) by auto
    then have "order_no b ` set (n # ns) - {order_no b j} = order_no b ` set ns"
      using True by auto
    then have "drain_heap q = drain_heap ?q"
      using Cons.prems(4-6) msg True
      by (simp add: drain_heap.simps [of q] heap_peek_def heap_pop_def next_order_no)
    also have "\<dots> = ?q\<lparr>recv_queue := recv_queue ?q @ map msg [Suc j..<run_end (Suc j) ns],
        remote_order_id := order_no b (run_end (Suc j) ns),
        o_recv_heap := map msg (filter (\<lambda>n. run_end (Suc j) ns \<le> n) ns),
        o_recv_set := order_no b ` {n \<in> set ns. run_end (Suc j) ns \<le> n}\<rparr>"
    proof (rule Cons.IH)
      show "b + Suc j \<le> 4096" using n(2) True by simp
    qed (use Cons.prems ge in auto)
    also have "\<dots> = q\<lparr>recv_queue := recv_queue q @ map msg [j..<run_end j (n # ns)],
        remote_order_id := order_no b (run_end j (n # ns)),
        o_recv_heap := map msg (filter (\<lambda>i. run_end j (n # ns) \<le> i) (n # ns)),
        o_recv_set := order_no b ` {i \<in> set (n # ns). run_end j (n # ns) \<le> i}\<rparr>"
    proof -
      have "\<not> run_end (Suc j) ns \<le> j" "[j..<run_end (Suc j) ns] = j # [Suc j..<run_end (Suc j) ns]"
        using run_end_ge [of "Suc j" ns] by (simp_all add: upt_conv_Cons)
      moreover from this(1) have "{i. (i = j \<or> i \<in> set ns) \<and> run_end (Suc j) ns \<le> i} =
          {i \<in> set ns. run_end (Suc j) ns \<le> i}" by auto
      ultimately show ?thesis using True by simp
    qed
    finally show ?thesis .
  qed
qed


subsection \<open>Ordered messages are delivered in order, exactly once\<close>

lemma heap_push_numbered:
  assumes "numbered b msg" "b + n < 4096" "\<And>i. i \<in> set ns \<Longrightarrow> b + i < 4096"
  shows "heap_push (msg n) (map msg ns) = map msg (insort n ns)"
proof -
  have "m_order (msg n) \<le> m_order (msg i) \<longleftrightarrow> n \<le> i" if "b + i < 4096" for i
    using assms(1,2) that by (simp add: numbered_def word_le_nat_alt)
  with assms(3) show ?thesis
    unfolding heap_push_def by (induction ns) auto
qed

lemma filter_sorted_list_of_set:
  assumes "finite (A :: nat set)"
  shows "filter P (sorted_list_of_set A) = sorted_list_of_set {n \<in> A. P n}"
  using assms
  by (intro sorted_distinct_set_unique) (auto simp: sorted_filter sorted_wrt_filter)

definition early :: "nat list \<Rightarrow> nat set" where
  "early ns = {n \<in> set ns. delivered_count ns < n}"

definition arrived_state ::
  "nat \<Rightarrow> (nat \<Rightarrow> message) \<Rightarrow> message_queue \<Rightarrow> nat list \<Rightarrow> message_queue" where
  "arrived_state b msg q ns =
     q\<lparr>recv_queue := recv_queue q @ map msg [0..<delivered_count ns],
       remote_order_id := order_no b (delivered_count ns),
       o_recv_heap := map msg (sorted_list_of_set (early ns)),
       o_recv_set := order_no b ` early ns\<rparr>"

definition in_window :: "nat \<Rightarrow> nat list \<Rightarrow> bool" where
  "in_window b ns \<longleftrightarrow> (\<forall>n \<in> set ns. n < 2047 \<and> b + n < 4096)"

lemma delivered_count_window:
  assumes "in_window b ns" "b \<le> 4096"
  shows "delivered_count ns \<le> 2047" "b + delivered_count ns \<le> 4096"
proof -
  have "delivered_count ns = 0 \<or> delivered_count ns - 1 \<in> set ns"
    using delivered_count_arrived [of "delivered_count ns - 1" ns] by linarith
  with assms show "delivered_count ns \<le> 2047" "b + delivered_count ns \<le> 4096"
    unfolding in_window_def by force+
qed

lemma delivered_count_repeat: "n \<in> set ns \<Longrightarrow> delivered_count (ns @ [n]) = delivered_count ns"
  by (rule delivered_count_eqI) (auto simp: delivered_count_missing insert_absorb dest: delivered_count_arrived)

lemma arrived_state_repeat:
  "n \<in> set ns \<Longrightarrow> arrived_state b msg q (ns @ [n]) = arrived_state b msg q ns"
  by (simp add: arrived_state_def early_def delivered_count_repeat insert_absorb)

lemma receive_expected:
  assumes "numbered b msg" "in_window b (ns @ [n])" "n = delivered_count ns"
  shows "receive_ordered_message (msg n) (arrived_state b msg q ns) = arrived_state b msg q (ns @ [n])"
proof -
  let ?k = "delivered_count ns" let ?L = "sorted_list_of_set (early ns)"
  let ?j = "run_end (Suc ?k) ?L"
  have window: "b + i < 4096" if "i \<in> set ns \<or> i = n" for i
    using assms(2) that by (auto simp: in_window_def)
  have L: "set ?L = early ns" "sorted_wrt (<) ?L" by (simp_all add: early_def)
  have j: "Suc ?k \<le> ?j" by (rule run_end_ge)
  have missing: "?j \<notin> early ns"
    using run_end_missing [OF L(2), of "Suc ?k"] L(1) by (simp add: early_def Suc_le_eq)
  have count: "delivered_count (ns @ [n]) = ?j"
  proof (rule delivered_count_eqI)
    fix i assume "i < ?j"
    then show "i \<in> set (ns @ [n])"
      using run_end_arrived [of "Suc ?k" i ?L] delivered_count_arrived [of i ns] assms(3) L(1)
      by (cases "i < ?k"; cases "i = ?k") (auto simp: early_def)
  next
    show "?j \<notin> set (ns @ [n])"
      using missing j assms(3) by (auto simp: early_def)
  qed
  have early: "{i \<in> early ns. ?j \<le> i} = early (ns @ [n])"
    using missing j assms(3) unfolding early_def count by (auto simp: le_less)
  have order: "m_order (msg n) = order_no b ?k"
    using assms(1,3) by (simp add: numbered_def)
  let ?q = "(arrived_state b msg q ns)\<lparr>recv_queue := recv_queue (arrived_state b msg q ns) @ [msg n],
      remote_order_id := order_no b (Suc ?k)\<rparr>"
  have "receive_ordered_message (msg n) (arrived_state b msg q ns) = drain_heap ?q"
    using order by (simp add: receive_ordered_message_def arrived_state_def next_order_no)
  also have "\<dots> = ?q\<lparr>recv_queue := recv_queue ?q @ map msg [Suc ?k..<?j],
      remote_order_id := order_no b ?j,
      o_recv_heap := map msg (filter (\<lambda>n. ?j \<le> n) ?L),
      o_recv_set := order_no b ` {n \<in> set ?L. ?j \<le> n}\<rparr>"
  proof (rule drain_heap_run [OF assms(1) L(2)])
    show "Suc ?k \<le> i \<and> b + i < 4096" if "i \<in> set ?L" for i
      using that L(1) window by (auto simp: early_def)
    show "b + Suc ?k \<le> 4096" using window [of n] assms(3) by simp
  qed (simp_all add: arrived_state_def L(1))
  also have "\<dots> = arrived_state b msg q (ns @ [n])"
  proof -
    have "[0..<?j] = [0..<?k] @ ?k # [Suc ?k..<?j]"
      using j upt_add_eq_append [of 0 ?k "?j - ?k"] by (simp add: upt_conv_Cons)
    moreover have "filter (\<lambda>n. ?j \<le> n) ?L = sorted_list_of_set (early (ns @ [n]))"
      by (subst filter_sorted_list_of_set) (simp_all add: early, simp add: early_def)
    ultimately show ?thesis
      using early by (simp add: arrived_state_def count [unfolded assms(3)] L(1) assms(3))
  qed
  finally show ?thesis .
qed

lemma receive_early:
  assumes "numbered b msg" "in_window b (ns @ [n])" "delivered_count ns < n" "n \<notin> set ns"
  shows "receive_ordered_message (msg n) (arrived_state b msg q ns) = arrived_state b msg q (ns @ [n])"
proof -
  let ?k = "delivered_count ns"
  have n: "n < 2047" "b + n < 4096" using assms(2) by (auto simp: in_window_def)
  have order: "m_order (msg n) = order_no b n"
    using assms(1) by (simp add: numbered_def)
  have ne: "order_no b n \<noteq> order_no b ?k"
    using order_no_inject [of b n ?k] n assms(3) by auto
  have recent: "order_is_more_recent (order_no b n) (order_no b ?k)"
    by (rule order_ids.wrapped_newer [of _ "b + n" _ "b + ?k"]) (use n assms(3) in auto)
  have new: "order_no b n \<notin> order_no b ` early ns"
  proof
    assume "order_no b n \<in> order_no b ` early ns"
    then obtain i where "i \<in> early ns" "order_no b n = order_no b i" by auto
    moreover from this(1) have "b + i < 4096" "i \<in> set ns"
      using assms(2) by (auto simp: early_def in_window_def)
    ultimately have "i = n"
      using n(2) by (metis unat_order_no add_left_cancel mod_less)
    with \<open>i \<in> set ns\<close> assms(4) show False by simp
  qed
  have count: "delivered_count (ns @ [n]) = ?k"
    by (rule delivered_count_eqI)
      (use assms(3) delivered_count_missing in \<open>auto dest: delivered_count_arrived\<close>)
  have early: "early (ns @ [n]) = insert n (early ns)" "n \<notin> early ns" "finite (early ns)"
    using assms(3,4) unfolding early_def count by auto
  have "heap_push (msg n) (map msg (sorted_list_of_set (early ns))) =
      map msg (sorted_list_of_set (early (ns @ [n])))"
    unfolding early(1)
    by (subst heap_push_numbered [OF assms(1) n(2)])
      (use assms(2) early(2,3) in \<open>auto simp: early_def in_window_def\<close>)
  with order ne recent new show ?thesis
    by (simp add: receive_ordered_message_def arrived_state_def early(1) count)
qed

lemma receive_old:
  assumes "numbered b msg" "in_window b (ns @ [n])" "n < delivered_count ns" "b \<le> 4096"
  shows "receive_ordered_message (msg n) (arrived_state b msg q ns) = arrived_state b msg q ns"
proof -
  let ?k = "delivered_count ns"
  have "in_window b ns" using assms(2) by (simp add: in_window_def)
  note k = delivered_count_window [OF this assms(4)]
  have order: "m_order (msg n) = order_no b n"
    using assms(1) by (simp add: numbered_def)
  have "\<not> order_is_more_recent (order_no b n) (order_no b ?k)"
    by (rule order_ids.wrapped_older [of _ "b + n" _ "b + ?k"]) (use k assms(3) in auto)
  moreover have "order_no b n \<noteq> order_no b ?k"
  proof
    assume "order_no b n = order_no b ?k"
    then have "(b + n) mod 4096 = (b + ?k) mod 4096" by (metis unat_order_no)
    with k assms(3) show False by (cases "b + ?k = 4096") auto
  qed
  ultimately show ?thesis
    using order by (simp add: receive_ordered_message_def arrived_state_def)
qed

lemma receive_arrival:
  assumes "numbered b msg" "in_window b (ns @ [n])" "b \<le> 4096"
  shows "receive_message (msg n) (arrived_state b msg q ns) = arrived_state b msg q (ns @ [n])"
proof -
  have old: "n \<in> set ns \<Longrightarrow> arrived_state b msg q (ns @ [n]) = arrived_state b msg q ns"
    by (rule arrived_state_repeat)
  have kind: "m_kind (msg n) = Ordered" using assms(1) by (simp add: numbered_def)
  consider "n < delivered_count ns" | "n = delivered_count ns"
    | "delivered_count ns < n" "n \<notin> set ns" | "delivered_count ns < n" "n \<in> set ns"
    by linarith
  then have "receive_ordered_message (msg n) (arrived_state b msg q ns) =
      arrived_state b msg q (ns @ [n])"
  proof cases
    case 1
    with receive_old [OF assms(1,2)] old delivered_count_arrived assms(3) show ?thesis by simp
  next
    case 4
    then have "order_no b n \<in> order_no b ` early ns" by (auto simp: early_def)
    moreover have "order_no b n \<noteq> order_no b (delivered_count ns)"
      using order_no_inject [of b n "delivered_count ns"] 4 assms(2)
      by (auto simp: in_window_def)
    ultimately show ?thesis
      using old 4 assms(1) by (simp add: receive_ordered_message_def arrived_state_def numbered_def)
  qed (use receive_expected receive_early assms in auto)
  then show ?thesis by (simp add: receive_message_def kind)
qed

lemma receive_arrivals:
  assumes "numbered b msg" "in_window b (ms @ ns)" "b \<le> 4096"
  shows "fold receive_message (map msg ns) (arrived_state b msg q ms) = arrived_state b msg q (ms @ ns)"
  using assms(2)
proof (induction ns arbitrary: ms)
  case (Cons n ns)
  have "in_window b (ms @ [n])" using Cons.prems by (simp add: in_window_def)
  with Cons.IH [of "ms @ [n]"] Cons.prems assms(1,3) show ?case
    by (simp add: receive_arrival)
qed simp

lemma delivered_count_Nil [simp]: "delivered_count [] = 0"
  by (rule delivered_count_eqI) auto

lemma arrived_state_Nil:
  assumes "remote_order_id q = order_no b 0" "o_recv_heap q = []" "o_recv_set q = {}"
  shows "arrived_state b msg q [] = q"
  using assms by (simp add: arrived_state_def early_def)


text \<open>An uninterrupted stream is delivered for ever, across every wrap-around of the order id.\<close>

lemma receive_in_order:
  assumes "numbered b msg" "remote_order_id q = order_no b j" "o_recv_heap q = []"
  shows "fold receive_message (map msg [j..<j + n]) q =
    q\<lparr>recv_queue := recv_queue q @ map msg [j..<j + n], remote_order_id := order_no b (j + n)\<rparr>"
  using assms(2,3)
proof (induction n arbitrary: q)
  case (Suc n)
  have "receive_message (msg (j + n)) q' = q'\<lparr>recv_queue := recv_queue q' @ [msg (j + n)],
      remote_order_id := order_no b (Suc (j + n))\<rparr>"
    if "remote_order_id q' = order_no b (j + n)" "o_recv_heap q' = []" for q'
    using assms(1) that
    by (simp add: receive_message_def receive_ordered_message_def numbered_def next_order_no
        drain_heap.simps heap_peek_def)
  with Suc show ?case by simp
qed simp

subsection \<open>The buffer of early messages under arbitrary input\<close>

definition recv_wf :: "message_queue \<Rightarrow> bool" where
  "recv_wf q \<longleftrightarrow>
     unat (remote_order_id q) < 4096 \<and> heap_invar (o_recv_heap q) \<and>
     distinct (map m_order (o_recv_heap q)) \<and> o_recv_set q = m_order ` set (o_recv_heap q) \<and>
     (\<forall>m \<in> set (o_recv_heap q). unat (m_order m) < 4096)"

lemma recv_wf_new: "recv_wf (mq_new config)"
  by (simp add: recv_wf_def mq_new_def heap_invar_def)

lemma recv_wf_reset: "recv_wf (mq_reset q)"
  by (simp add: recv_wf_def mq_reset_def heap_invar_def)

lemma recv_wf_drain: "recv_wf q \<Longrightarrow> recv_wf (drain_heap q)"
proof (induction q rule: drain_heap.induct)
  case (1 q)
  show ?case
  proof (cases "\<exists>m heap. o_recv_heap q = m # heap \<and> m_order m = remote_order_id q")
    case False
    then have "drain_heap q = q"
      by (auto simp: drain_heap.simps [of q] heap_peek_def Let_def split: list.splits)
    with "1.prems" show ?thesis by simp
  next
    case True
    then obtain m heap where h: "o_recv_heap q = m # heap" "m_order m = remote_order_id q" by blast
    let ?q = "q\<lparr>o_recv_set := o_recv_set q - {remote_order_id q}, o_recv_heap := heap,
        recv_queue := recv_queue q @ [m], remote_order_id := next_order (remote_order_id q)\<rparr>"
    have "recv_wf ?q"
      using "1.prems" h by (auto simp: recv_wf_def heap_invar_def next_order_bound)
    then have "recv_wf (drain_heap ?q)"
      using "1.IH" [of True "(m, heap)" m heap] h by (simp add: heap_peek_def heap_pop_def)
    with h show ?thesis
      by (simp add: drain_heap.simps [of q] heap_peek_def heap_pop_def)
  qed
qed

lemma heap_push_map_order: "m_order ` set (heap_push m heap) = insert (m_order m) (m_order ` set heap)"
  by (simp add: heap_push_def set_insort_key)

lemma recv_wf_receive_message:
  assumes "recv_wf q" "unat (m_order m) < 4096"
  shows "recv_wf (receive_message m q)"
proof -
  have deliver: "recv_wf (q\<lparr>recv_queue := ms, remote_order_id := next_order (remote_order_id q)\<rparr>)" for ms
    using assms(1) by (simp add: recv_wf_def next_order_bound)
  have keep: "recv_wf (q\<lparr>recv_queue := ms\<rparr>)" for ms
    using assms(1) by (simp add: recv_wf_def)
  have store: "recv_wf (q\<lparr>o_recv_set := insert (m_order m) (o_recv_set q),
      o_recv_heap := heap_push m (o_recv_heap q)\<rparr>)" if "m_order m \<notin> o_recv_set q"
  proof -
    have "mset (map m_order (heap_push m (o_recv_heap q))) =
        mset (m_order m # map m_order (o_recv_heap q))"
      using recv_heap.contents_push by simp
    moreover have "distinct (m_order m # map m_order (o_recv_heap q))"
      using assms(1) that by (simp add: recv_wf_def)
    ultimately have "distinct (map m_order (heap_push m (o_recv_heap q)))"
      using mset_eq_imp_distinct_iff by blast
    then show ?thesis
      using assms recv_heap.invar_push [of "o_recv_heap q" m]
      by (auto simp: recv_wf_def heap_push_map_order) (auto simp: heap_push_def set_insort_key)
  qed
  show ?thesis
    using deliver keep store assms(1)
    by (auto simp: receive_message_def receive_ordered_message_def recv_wf_drain split: message_kind.splits)
qed

lemma recv_wf_receive_packet: "recv_wf q \<Longrightarrow> recv_wf (mq_receive_packet packet q)"
proof -
  have "recv_wf (fold receive_message ms q)"
    if "recv_wf q" "\<And>m. m \<in> set ms \<Longrightarrow> unat (m_order m) < 4096" for ms q
    using that by (induction ms arbitrary: q) (simp_all add: recv_wf_receive_message)
  then show "recv_wf q \<Longrightarrow> recv_wf (mq_receive_packet packet q)"
    using parse_fields by (simp add: mq_receive_packet_def messages_from_packet_parse)
qed

lemma recv_wf_buffer_bound:
  assumes "recv_wf q"
  shows "length (o_recv_heap q) \<le> 4096" "card (o_recv_set q) = length (o_recv_heap q)"
proof -
  have d: "distinct (map m_order (o_recv_heap q))" using assms by (simp add: recv_wf_def)
  have "card (set (map m_order (o_recv_heap q))) = length (o_recv_heap q)"
    using distinct_card [OF d] by simp
  then show "card (o_recv_set q) = length (o_recv_heap q)"
    using assms by (simp add: recv_wf_def)
  have "distinct (map unat (map m_order (o_recv_heap q)))"
    using d by (subst distinct_map) (simp add: inj_on_def word_unat_eq_iff)
  then have "length (o_recv_heap q) = card (set (map unat (map m_order (o_recv_heap q))))"
    by (metis distinct_card length_map)
  also have "\<dots> \<le> card {..<4096::nat}"
    by (rule card_mono) (use assms in \<open>auto simp: recv_wf_def\<close>)
  finally show "length (o_recv_heap q) \<le> 4096" by simp
qed

text \<open>The operations of the sending side leave the receive side alone, and the other way round.\<close>

lemma recv_wf_send: "recv_wf (mq_send kind payload q) = recv_wf q"
  by (cases kind) (simp_all add: mq_send_def recv_wf_def Let_def)

lemma recv_wf_lost_packet: "recv_wf (mq_lost_packet packet q) = recv_wf q"
  by (simp add: mq_lost_packet_queues recv_wf_def)

lemma recv_wf_send_packet:
  "mq_send_packet packet available q = Some (packet', q') \<Longrightarrow> recv_wf q' = recv_wf q"
  by (auto simp: mq_send_packet_def bind_Some_iff recv_wf_def)

definition out_side :: "message_queue \<Rightarrow> config \<times> u16 \<times> message list \<times> message list \<times> message list" where
  "out_side q = (mq_config q, local_order_id q, i_queue q, r_queue q, o_queue q)"

lemma drain_heap_out_side [simp]: "out_side (drain_heap q) = out_side q"
proof (induction q rule: drain_heap.induct)
  case (1 q)
  then show ?case
    by (subst drain_heap.simps) (auto simp: Let_def out_side_def split: option.splits)
qed

lemma receive_packet_out_side [simp]: "out_side (mq_receive_packet packet q) = out_side q"
proof -
  have "out_side (receive_message m q) = out_side q" for m q
    by (simp add: receive_message_def receive_ordered_message_def split: message_kind.splits)
      (auto simp: out_side_def)
  then have "out_side (fold receive_message ms q) = out_side q" for ms
    by (induction ms arbitrary: q) simp_all
  then show ?thesis by (simp add: mq_receive_packet_def)
qed

lemma send_wf_receive_packet: "send_wf (mq_receive_packet packet q) = send_wf q"
  "mq_config (mq_receive_packet packet q) = mq_config q"
  using receive_packet_out_side [of packet q] by (simp_all add: out_side_def send_wf_def)

text \<open>Without the expected order id nothing is handed on, whatever the heap holds.\<close>

lemma receive_without_expected:
  assumes "\<forall>m \<in> set ms. m_kind m = Ordered \<and> m_order m \<noteq> remote_order_id q"
  shows "recv_queue (fold receive_message ms q) = recv_queue q"
  using assms
  by (induction ms arbitrary: q) (simp_all add: receive_message_def receive_ordered_message_def)

end
