(* ===== verification/Connection_Acks.thy ===== *)
theory Connection_Acks
  imports Connection Queue_Receiving
begin

text \<open>
  Sequence numbers, the acknowledgment bitfield and the packet header of a connection: which packets the
  two header fields acknowledge, that no arithmetic on sequence numbers below 256 underflows, and that
  the receiver reads back the fields the sender wrote.
\<close>

interpretation seq_numbers: serial_order unat 256 seq_is_more_recent
proof unfold_locales
  fix a b :: u32
  assume "unat a < 256" "unat b < 256"
  then show "seq_is_more_recent a b \<longleftrightarrow>
      unat b < unat a \<and> unat a - unat b \<le> 256 div 2 \<or>
      unat a < unat b \<and> 256 div 2 < unat b - unat a"
    by (auto simp: seq_is_more_recent_def MAX_SEQ_NUMBER_def word_less_nat_alt word_le_nat_alt unat_sub)
qed (simp_all add: word_unat_eq_iff)

subsection \<open>Distances between sequence numbers\<close>

text \<open>How far \<open>seq\<close> is behind \<open>ack\<close>, less one, around the wrap at 256.\<close>

definition behind :: "u32 \<Rightarrow> u32 \<Rightarrow> nat" where
  "behind seq ack = (unat ack + 255 - unat seq) mod 256"

lemma behind_less [simp]: "behind seq ack < 256"
  by (simp add: behind_def)

lemma unat_behind [simp]: "unat (word_of_nat (behind seq ack) :: u32) = behind seq ack"
  by (simp add: unat_of_nat behind_def)

lemma seq_bit_index_eq:
  assumes "unat seq < 256" "unat ack < 256" "seq \<noteq> ack"
  shows "seq_bit_index seq ack = Some (word_of_nat (behind seq ack))"
proof (cases "ack < seq")
  case True
  then have lt: "unat ack < unat seq" by (simp add: word_less_nat_alt)
  have s: "seq \<le> 255" using assms(1) by (simp add: word_le_nat_alt)
  then have d: "unat (255 - seq) = 255 - unat seq" by (simp add: unat_sub)
  have "checked_add_u32 ack (255 - seq) = Some (ack + (255 - seq))"
    using assms(2) d by (simp add: checked_add_u32_def)
  moreover have "unat (ack + (255 - seq)) = behind seq ack"
    using assms(1,2) lt d by (simp add: unat_word_ariths behind_def)
  then have "ack + (255 - seq) = word_of_nat (behind seq ack)" by (metis unat_behind word_unat_eq_iff)
  ultimately show ?thesis
    using True s by (simp add: seq_bit_index_def MAX_SEQ_NUMBER_def checked_sub_u32_def)
next
  case False
  with assms(3) have lt: "unat seq < unat ack"
    by (auto simp: word_less_nat_alt word_unat_eq_iff)
  then have one: "1 \<le> ack" by (simp add: word_le_nat_alt)
  then have d: "unat (ack - 1) = unat ack - 1" by (simp add: unat_sub)
  then have le: "seq \<le> ack - 1" using lt by (simp add: word_le_nat_alt)
  then have "unat (ack - 1 - seq) = behind seq ack"
    using lt d assms(1,2) by (simp add: unat_sub behind_def mod_if)
  then have "ack - 1 - seq = word_of_nat (behind seq ack)" by (metis unat_behind word_unat_eq_iff)
  with False one le show ?thesis by (simp add: seq_bit_index_def checked_sub_u32_def)
qed

lemma mod_256: "n < 512 \<Longrightarrow> n mod 256 = (if n < 256 then n else n - (256 :: nat))"
  by (simp add: le_mod_geq)

lemma behind_inject:
  assumes "unat a < 256" "unat b < 256" "behind a ack = behind b ack"
  shows "a = b"
proof -
  have sum: "(behind s ack + unat s) mod 256 = (unat ack + 255) mod 256" if "unat s < 256" for s
    using that by (simp add: behind_def mod_add_left_eq)
  define k where "k = behind a ack"
  have "(k + unat a) mod 256 = (k + unat b) mod 256"
    using sum [OF assms(1)] sum [OF assms(2)] assms(3) by (simp add: k_def)
  moreover have "k < 256" by (simp add: k_def)
  ultimately have "unat a = unat b"
    using assms(1,2) by (simp add: mod_256 split: if_splits)
  then show ?thesis by (simp add: word_unat_eq_iff)
qed

lemma mask_bit: "bitfield AND 2 ^ n \<noteq> 0 \<longleftrightarrow> bit (bitfield :: u32) n"
  by (simp add: bit_iff_and_push_bit_not_eq_0 push_bit_eq_mult)

lemma seq_was_acked_eq:
  assumes "unat seq < 256" "unat ack < 256"
  shows "seq_was_acked seq ack bitfield =
    Some (seq = ack \<or> behind seq ack < 32 \<and> bit bitfield (behind seq ack))"
proof (cases "seq = ack")
  case False
  have "(word_of_nat (behind seq ack) :: u32) < 32 \<longleftrightarrow> behind seq ack < 32"
    by (simp add: word_less_nat_alt)
  with False show ?thesis
    by (auto simp: seq_was_acked_def seq_bit_index_eq [OF assms] MAX_ACK_BITS_def mask_bit)
qed (simp add: seq_was_acked_def)

subsection \<open>The ack bitfield\<close>

lemma ack_bitfield_bits:
  assumes "unat remote < 256" "\<forall>seq \<in> set seqs. unat seq < 256"
  shows "\<exists>bitfield'. ack_bitfield remote seqs bitfield = Some bitfield' \<and>
    (\<forall>n. bit bitfield' n \<longleftrightarrow>
       bit bitfield n \<or> n < 32 \<and> (\<exists>seq \<in> set seqs. seq \<noteq> remote \<and> behind seq remote = n))"
  using assms(2)
proof (induction seqs arbitrary: bitfield)
  case (Cons seq seqs)
  show ?case
  proof (cases "seq = remote")
    case True
    with Cons show ?thesis by auto
  next
    case False
    have "unat seq < 256" using Cons.prems by simp
    note i = seq_bit_index_eq [OF this assms(1) False]
    let ?b = "if behind seq remote < 32 then bitfield OR push_bit (behind seq remote) 1 else bitfield"
    have "(word_of_nat (behind seq remote) :: u32) < 32 \<longleftrightarrow> behind seq remote < 32"
      by (simp add: word_less_nat_alt)
    then have step: "ack_bitfield remote (seq # seqs) bitfield = ack_bitfield remote seqs ?b"
      using False i by (simp add: MAX_ACK_BITS_def)
    have "bit ?b n \<longleftrightarrow> bit bitfield n \<or> n < 32 \<and> behind seq remote = n" for n
      by (auto simp: bit_simps dest: bit_imp_le_length)
    with Cons.IH [of ?b] Cons.prems False show ?thesis unfolding step by auto
  qed
qed simp

text \<open>Which packets a peer's two header fields acknowledge.\<close>

definition acknowledges :: "u32 \<Rightarrow> u32 list \<Rightarrow> u32 \<Rightarrow> bool" where
  "acknowledges remote received seq \<longleftrightarrow>
     seq = remote \<or> seq \<in> set received \<and> behind seq remote < 32"

lemma ack_fields:
  assumes "unat remote < 256" "\<forall>s \<in> set received. unat s < 256"
  obtains bitfield where "ack_bitfield remote received 0 = Some bitfield"
    "\<And>seq. unat seq < 256 \<Longrightarrow> seq_was_acked seq remote bitfield = Some (acknowledges remote received seq)"
proof -
  from ack_bitfield_bits [OF assms, of 0] obtain bitfield where
    b: "ack_bitfield remote received 0 = Some bitfield"
    "\<And>n. bit bitfield n \<longleftrightarrow> n < 32 \<and> (\<exists>seq \<in> set received. seq \<noteq> remote \<and> behind seq remote = n)"
    by auto
  have "seq_was_acked seq remote bitfield = Some (acknowledges remote received seq)"
    if "unat seq < 256" for seq
  proof -
    have "(\<exists>s \<in> set received. s \<noteq> remote \<and> behind s remote = behind seq remote) \<longleftrightarrow>
        seq \<in> set received \<and> seq \<noteq> remote"
      using behind_inject [OF _ that] assms(2) by metis
    then show ?thesis
      using that assms(1) by (auto simp: seq_was_acked_eq acknowledges_def b(2))
  qed
  with b(1) that show thesis by blast
qed

subsection \<open>The packet header\<close>

lemma ucast_seq: "unat (w :: u32) < 256 \<Longrightarrow> (ucast (ucast w :: u8) :: u32) = w"
proof -
  assume "unat w < 256"
  then have "take_bit 8 w = w"
    by (simp add: word_unat_eq_iff unsigned_take_bit_eq take_bit_nat_eq_self)
  then have "bit w n \<Longrightarrow> n < 8" for n by (metis bit_take_bit_iff)
  then show ?thesis by (intro bit_word_eqI) (auto simp: bit_simps)
qed

definition header :: "u8 \<times> u8 \<times> u8 \<times> u8 \<Rightarrow> connection_id \<Rightarrow> u8 \<Rightarrow> u8 \<Rightarrow> u32 \<Rightarrow> bytes" where
  "header protocol i seq ack bitfield =
     header_bytes protocol @ id_bytes i @ [seq, ack] @ u32_bytes bitfield"

lemma length_header [simp]: "length (header protocol i seq ack bitfield) = 14"
  by (simp add: header_def id_bytes_def)

lemma header_fields:
  assumes "packet = header protocol i seq ack bitfield @ body"
  shows "take 4 packet = header_bytes protocol" "packet ! 8 = seq" "packet ! 9 = ack"
    "u32_of_bytes (packet ! 10) (packet ! 11) (packet ! 12) (packet ! 13) = bitfield"
    "u32_of_bytes (packet ! 4) (packet ! 5) (packet ! 6) (packet ! 7) = id_word i"
    "drop 14 packet = body" "take 14 packet = header protocol i seq ack bitfield"
    "length packet = 14 + length body"
    "take 6 (drop 8 packet) = [seq, ack] @ u32_bytes bitfield"
  using assms by (cases protocol; simp add: header_def id_bytes_def u32_bytes_def codec)+

lemma header_id:
  "protocol_header config = protocol \<Longrightarrow>
   id_from_packet config (header protocol i seq ack bitfield @ body) = Some i"
  using header_fields [OF refl, of protocol i seq ack bitfield body]
  by (cases i) (simp add: id_from_packet_def)

end
