(* ===== verification/Connection_Invariant.thy ===== *)
theory Connection_Invariant
  imports Connection_Acks
begin

text \<open>
  What every operation of a connection keeps: sequence numbers stay below 256, the queue of received
  sequence numbers within the 32 bits of the ack field, the packets pending acknowledgment distinct and
  complete. From it follows that no operation panics, whatever bytes the network delivers, and an exact
  account of what a received packet does to the packets pending acknowledgment.
\<close>

subsection \<open>Pending packets\<close>

definition pending_ok :: "sent_packet_ack \<Rightarrow> bool" where
  "pending_ok p \<longleftrightarrow> unat (sp_seq p) < 256 \<and> sp_state p = Unknown \<and>
     (\<exists>packet. sp_packet p = Some packet \<and> PACKET_HEADER_SIZE \<le> length packet)"

definition is_acked :: "u32 \<Rightarrow> u32 \<Rightarrow> sent_packet_ack \<Rightarrow> bool" where
  "is_acked ack bitfield p \<longleftrightarrow> seq_was_acked (sp_seq p) ack bitfield = Some True"

definition timed_out :: "('r, 'm) connection \<Rightarrow> sent_packet_ack \<Rightarrow> bool" where
  "timed_out c p \<longleftrightarrow> last_receive_time c - sp_time p > packet_drop_threshold (cn_config c)"

definition lost_payloads :: "u32 \<Rightarrow> u32 \<Rightarrow> ('r, 'm) connection \<Rightarrow> sent_packet_ack list \<Rightarrow> bytes list" where
  "lost_payloads ack bitfield c ps =
     map (\<lambda>p. drop PACKET_HEADER_SIZE (the (sp_packet p)))
       (filter (\<lambda>p. \<not> is_acked ack bitfield p \<and> timed_out c p) ps)"

text \<open>The loop over the pending packets touches nothing but the counters, the rtt, the queue and the events.\<close>

definition ack_frame :: "('r, 'm) connection \<Rightarrow> ('r, 'm) connection \<Rightarrow> bool" where
  "ack_frame c c' \<longleftrightarrow>
     c' = c\<lparr>smoothed_rtt := smoothed_rtt c', lost_packets := lost_packets c',
            acked_packets := acked_packets c', cn_queue := cn_queue c', cn_events := cn_events c'\<rparr>"

lemma ack_frame_refl [simp]: "ack_frame c c"
  by (simp add: ack_frame_def)

lemma ack_frame_fields:
  assumes "ack_frame c c'"
  shows "cn_config c' = cn_config c" "random_id c' = random_id c" "cn_state c' = cn_state c"
    "local_address c' = local_address c" "peer_address c' = peer_address c"
    "remote_seq_number c' = remote_seq_number c" "local_seq_number c' = local_seq_number c"
    "last_receive_time c' = last_receive_time c" "last_send_time c' = last_send_time c"
    "recv_ack_queue c' = recv_ack_queue c" "sent_ack_queue c' = sent_ack_queue c"
    "sent_packets c' = sent_packets c" "recv_packets c' = recv_packets c"
    "cn_limiter c' = cn_limiter c" "cn_modifier c' = cn_modifier c"
  by (subst assms [unfolded ack_frame_def], simp)+

lemma ack_frameI:
  assumes "cn_config c' = cn_config c" "random_id c' = random_id c" "cn_state c' = cn_state c"
    "local_address c' = local_address c" "peer_address c' = peer_address c"
    "remote_seq_number c' = remote_seq_number c" "local_seq_number c' = local_seq_number c"
    "last_receive_time c' = last_receive_time c" "last_send_time c' = last_send_time c"
    "recv_ack_queue c' = recv_ack_queue c" "sent_ack_queue c' = sent_ack_queue c"
    "sent_packets c' = sent_packets c" "recv_packets c' = recv_packets c"
    "cn_limiter c' = cn_limiter c" "cn_modifier c' = cn_modifier c"
  shows "ack_frame c c'"
  unfolding ack_frame_def by (rule connection.equality) (simp_all add: assms)

lemma ack_frame_trans: "ack_frame a b \<Longrightarrow> ack_frame b c \<Longrightarrow> ack_frame a c"
  by (rule ack_frameI) (simp_all add: ack_frame_fields)

lemma process_ack_cases:
  assumes "pending_ok p" "unat ack < 256" "0 < send_rate (cn_config c)"
  obtains p' c' where "process_ack ack bitfield p c = Some (p', c')" "ack_frame c c'"
    "sp_state p' = Unknown \<longleftrightarrow> \<not> is_acked ack bitfield p \<and> \<not> timed_out c p"
    "sp_state p' = Unknown \<longrightarrow> p' = p"
    "cn_queue c' = fold mq_lost_packet (lost_payloads ack bitfield c [p]) (cn_queue c)"
    "cn_events c' = cn_events c @ map PacketLost_Event (lost_payloads ack bitfield c [p])"
    "acked_packets c' = acked_packets c + of_bool (is_acked ack bitfield p)"
    "lost_packets c' = lost_packets c + of_bool (\<not> is_acked ack bitfield p \<and> timed_out c p)"
proof -
  from assms(1) obtain packet where p: "unat (sp_seq p) < 256" "sp_state p = Unknown"
    "sp_packet p = Some packet" "PACKET_HEADER_SIZE \<le> length packet"
    by (auto simp: pending_ok_def)
  have acked: "seq_was_acked (sp_seq p) ack bitfield = Some (is_acked ack bitfield p)"
    using p(1) assms(2) by (simp add: is_acked_def seq_was_acked_eq)
  consider "is_acked ack bitfield p" | "\<not> is_acked ack bitfield p" "timed_out c p"
    | "\<not> is_acked ack bitfield p" "\<not> timed_out c p" by blast
  then show thesis
  proof cases
    case 1
    show thesis
      by (rule that, use assms(3) p acked 1 in \<open>simp add: process_ack_def Let_def\<close>)
        (use 1 in \<open>simp_all add: ack_frame_def lost_payloads_def\<close>)
  next
    case 2
    show thesis
      by (rule that, use p acked 2 in \<open>simp add: process_ack_def timed_out_def Let_def\<close>)
        (use 2 p in \<open>simp_all add: ack_frame_def lost_payloads_def push_event_def\<close>)
  next
    case 3
    show thesis
      by (rule that, use p acked 3 in \<open>simp add: process_ack_def timed_out_def Let_def\<close>)
        (use 3 p in \<open>simp_all add: lost_payloads_def\<close>)
  qed
qed

lemma process_acks_spec:
  assumes "\<forall>p \<in> set ps. pending_ok p" "unat ack < 256" "0 < send_rate (cn_config c)"
  obtains ps' c' where "process_acks ack bitfield ps c = Some (ps', c')" "ack_frame c c'"
    "filter (\<lambda>p. sp_state p = Unknown) ps' =
       filter (\<lambda>p. \<not> is_acked ack bitfield p \<and> \<not> timed_out c p) ps"
    "cn_queue c' = fold mq_lost_packet (lost_payloads ack bitfield c ps) (cn_queue c)"
    "cn_events c' = cn_events c @ map PacketLost_Event (lost_payloads ack bitfield c ps)"
    "acked_packets c' = acked_packets c + word_of_nat (length (filter (is_acked ack bitfield) ps))"
    "lost_packets c' = lost_packets c + word_of_nat (length (lost_payloads ack bitfield c ps))"
  using assms
proof (induction ps arbitrary: c thesis)
  case Nil
  show ?case by (rule Nil.prems(1) [of "[]" c]) (simp_all add: lost_payloads_def)
next
  case (Cons p ps)
  have p: "pending_ok p" and ps: "\<forall>p \<in> set ps. pending_ok p" using Cons.prems(2) by simp_all
  obtain p1 c1 where 1: "process_ack ack bitfield p c = Some (p1, c1)" "ack_frame c c1"
    "sp_state p1 = Unknown \<longleftrightarrow> \<not> is_acked ack bitfield p \<and> \<not> timed_out c p"
    "sp_state p1 = Unknown \<longrightarrow> p1 = p"
    "cn_queue c1 = fold mq_lost_packet (lost_payloads ack bitfield c [p]) (cn_queue c)"
    "cn_events c1 = cn_events c @ map PacketLost_Event (lost_payloads ack bitfield c [p])"
    "acked_packets c1 = acked_packets c + of_bool (is_acked ack bitfield p)"
    "lost_packets c1 = lost_packets c + of_bool (\<not> is_acked ack bitfield p \<and> timed_out c p)"
    by (rule process_ack_cases [OF p Cons.prems(3,4), of bitfield])
  have to: "timed_out c1 = timed_out c"
    using ack_frame_fields [OF 1(2)] by (simp add: timed_out_def fun_eq_iff)
  have lost: "lost_payloads ack bitfield c1 = lost_payloads ack bitfield c"
    by (simp add: lost_payloads_def to fun_eq_iff)
  have rate: "0 < send_rate (cn_config c1)" using Cons.prems(4) ack_frame_fields [OF 1(2)] by simp
  obtain ps2 c2 where 2: "process_acks ack bitfield ps c1 = Some (ps2, c2)" "ack_frame c1 c2"
    "filter (\<lambda>p. sp_state p = Unknown) ps2 = filter (\<lambda>p. \<not> is_acked ack bitfield p \<and> \<not> timed_out c1 p) ps"
    "cn_queue c2 = fold mq_lost_packet (lost_payloads ack bitfield c1 ps) (cn_queue c1)"
    "cn_events c2 = cn_events c1 @ map PacketLost_Event (lost_payloads ack bitfield c1 ps)"
    "acked_packets c2 = acked_packets c1 + word_of_nat (length (filter (is_acked ack bitfield) ps))"
    "lost_packets c2 = lost_packets c1 + word_of_nat (length (lost_payloads ack bitfield c1 ps))"
    by (rule Cons.IH [OF _ ps Cons.prems(3) rate])
  have split: "lost_payloads ack bitfield c (p # ps) = lost_payloads ack bitfield c [p] @ lost_payloads ack bitfield c ps"
    by (simp add: lost_payloads_def)
  have number: "word_of_nat (length (lost_payloads ack bitfield c (p # ps))) =
      of_bool (\<not> is_acked ack bitfield p \<and> timed_out c p) + (word_of_nat (length (lost_payloads ack bitfield c ps)) :: u32)"
    by (simp add: lost_payloads_def)
  show ?case
  proof (rule Cons.prems(1))
    show "process_acks ack bitfield (p # ps) c = Some (p1 # ps2, c2)" using 1(1) 2(1) by simp
    show "ack_frame c c2" by (rule ack_frame_trans [OF 1(2) 2(2)])
    show "lost_packets c2 = lost_packets c + word_of_nat (length (lost_payloads ack bitfield c (p # ps)))"
      unfolding number by (simp add: 1(8) 2(7) lost add.assoc)
    show "cn_queue c2 = fold mq_lost_packet (lost_payloads ack bitfield c (p # ps)) (cn_queue c)"
      "cn_events c2 = cn_events c @ map PacketLost_Event (lost_payloads ack bitfield c (p # ps))"
      unfolding split 2(4,5) 1(5,6) lost by simp_all
    show "filter (\<lambda>p. sp_state p = Unknown) (p1 # ps2) =
        filter (\<lambda>p. \<not> is_acked ack bitfield p \<and> \<not> timed_out c p) (p # ps)"
      using 1(3,4) 2(3) unfolding to by (cases "sp_state p1 = Unknown") simp_all
    show "acked_packets c2 = acked_packets c + word_of_nat (length (filter (is_acked ack bitfield) (p # ps)))"
      unfolding 2(6) 1(7) by (simp add: add.assoc)
  qed
qed

subsection \<open>The invariant\<close>

definition valid_settings :: "config \<Rightarrow> bool" where
  "valid_settings config \<longleftrightarrow>
     percent_quotas config \<and> 0 < send_rate config \<and>
     PACKET_HEADER_SIZE \<le> packet_max_size config \<and> packet_max_size config < 2 ^ 22"

lemma valid_settings_default [simp]: "valid_settings default_config"
  by (simp add: valid_settings_def PACKET_HEADER_SIZE_def)

definition conn_invar :: "('r \<Rightarrow> bool) \<Rightarrow> ('r, 'm) connection \<Rightarrow> bool" where
  "conn_invar limiter_ok c \<longleftrightarrow>
     valid_settings (cn_config c) \<and> mq_config (cn_queue c) = cn_config c \<and>
     unat (remote_seq_number c) < 256 \<and> unat (local_seq_number c) < 256 \<and>
     (\<forall>s \<in> set (recv_ack_queue c). unat s < 256) \<and> length (recv_ack_queue c) \<le> 32 \<and>
     (\<forall>p \<in> set (sent_ack_queue c). pending_ok p) \<and> distinct (map sp_seq (sent_ack_queue c)) \<and>
     limiter_ok (cn_limiter c)"

text \<open>What no packet ever changes: the configuration, the id and the peer's address.\<close>

definition same_peer :: "('r, 'm) connection \<Rightarrow> ('r, 'm) connection \<Rightarrow> bool" where
  "same_peer c c' \<longleftrightarrow>
     cn_config c' = cn_config c \<and> random_id c' = random_id c \<and> peer_address c' = peer_address c"

lemma mq_lost_config [simp]: "mq_config (mq_lost_packet packet q) = mq_config q"
  by (simp add: mq_lost_packet_queues)

lemma fold_lost_config [simp]: "mq_config (fold mq_lost_packet payloads q) = mq_config q"
  by (induction payloads arbitrary: q) simp_all

lemma update_receive_state_keeps:
  assumes "update_receive_state packet c = (accepted, c')"
  shows "c' = c\<lparr>cn_state := cn_state c', lost_packets := lost_packets c', cn_events := cn_events c'\<rparr>"
  using assms
  by (auto simp: update_receive_state_def push_event_def split: if_splits connection_state.splits)

lemma update_receive_state_fields:
  assumes "update_receive_state packet c = (accepted, c')"
  shows "cn_config c' = cn_config c" "random_id c' = random_id c" "cn_queue c' = cn_queue c"
    "remote_seq_number c' = remote_seq_number c" "local_seq_number c' = local_seq_number c"
    "recv_ack_queue c' = recv_ack_queue c" "sent_ack_queue c' = sent_ack_queue c"
    "cn_limiter c' = cn_limiter c" "cn_modifier c' = cn_modifier c" "peer_address c' = peer_address c"
    "last_receive_time c' = last_receive_time c" "last_send_time c' = last_send_time c"
    "sent_packets c' = sent_packets c" "acked_packets c' = acked_packets c" "smoothed_rtt c' = smoothed_rtt c"
  by (subst update_receive_state_keeps [OF assms], simp)+

lemma unat_ucast_u8 [simp]: "unat (ucast (b :: u8) :: u32) < 256"
proof -
  have "unat (ucast b :: u32) \<le> unat b" by (simp add: unsigned_ucast_eq)
  also have "unat b < 256" using unsigned_less [of b] by simp
  finally show ?thesis .
qed

subsection \<open>Receiving a packet\<close>

text \<open>
  The account of an accepted packet. \<open>stamped\<close> is the connection when the loop over the pending packets
  starts: the state change is done, the receive time and the remote sequence number are set.
\<close>

definition stamped :: "bytes \<Rightarrow> clock \<Rightarrow> ('r, 'm) connection \<Rightarrow> ('r, 'm) connection" where
  "stamped packet clk c =
     (snd (update_receive_state packet c))\<lparr>last_receive_time := clk 0, remote_seq_number := ucast (packet ! 8)\<rparr>"

definition ack_of :: "bytes \<Rightarrow> u32" where
  "ack_of packet = ucast (packet ! 9)"

definition bitfield_of :: "bytes \<Rightarrow> u32" where
  "bitfield_of packet = u32_of_bytes (packet ! 10) (packet ! 11) (packet ! 12) (packet ! 13)"

lemma receive_packet_rejected:
  assumes "length packet < PACKET_HEADER_SIZE \<or> \<not> fst (update_receive_state packet c)"
  obtains c' where "receive_packet M packet clk c = Some (False, c', clk)"
    "c' = c \<or> c' = snd (update_receive_state packet c)"
proof -
  let ?c = "if length packet < PACKET_HEADER_SIZE then c else snd (update_receive_state packet c)"
  have "receive_packet M packet clk c = Some (False, ?c, clk)"
    using assms by (cases "length packet < PACKET_HEADER_SIZE"; cases "update_receive_state packet c")
      (simp_all add: receive_packet_def)
  then show thesis by (rule that) simp
qed

lemma push_received_take:
  assumes "length queue \<le> 32"
  shows "push_received seq queue = take 32 (seq # queue)"
proof (cases "length queue = 32")
  case True
  then show ?thesis
    by (simp add: push_received_def MAX_ACK_BITS_def butlast_conv_take del: butlast.simps take_Cons_numeral)
next
  case False
  with assms show ?thesis
    by (simp add: push_received_def MAX_ACK_BITS_def del: butlast.simps take_Cons_numeral)
qed

lemma receive_packet_accepted:
  assumes "conn_invar limiter_ok c" "PACKET_HEADER_SIZE \<le> length packet"
    and "fst (update_receive_state packet c)"
    and "pm_incoming M (drop PACKET_HEADER_SIZE packet) (cn_modifier c) = (replacement, modifier)"
    and lost: "lost = lost_payloads (ack_of packet) (bitfield_of packet) (stamped packet clk c) (sent_ack_queue c)"
  obtains c' where "receive_packet M packet clk c = Some (True, c', clock_skip 1 clk)"
    "cn_queue c' = mq_receive_packet (payload_after replacement (drop PACKET_HEADER_SIZE packet))
       (fold mq_lost_packet lost (cn_queue c))"
    "cn_events c' = cn_events (snd (update_receive_state packet c)) @ map PacketLost_Event lost"
    "sent_ack_queue c' = filter (\<lambda>p. \<not> is_acked (ack_of packet) (bitfield_of packet) p \<and>
       \<not> timed_out (stamped packet clk c) p) (sent_ack_queue c)"
    "recv_ack_queue c' = take 32 (ucast (packet ! 8) # recv_ack_queue c)"
    "remote_seq_number c' = ucast (packet ! 8)" "last_receive_time c' = clk 0"
    "cn_state c' = cn_state (snd (update_receive_state packet c))"
    "cn_config c' = cn_config c" "random_id c' = random_id c" "local_seq_number c' = local_seq_number c"
    "cn_limiter c' = cn_limiter c" "cn_modifier c' = modifier" "peer_address c' = peer_address c"
    "last_send_time c' = last_send_time c"
proof -
  let ?s = "stamped packet clk c"
  obtain c1 where u: "update_receive_state packet c = (True, c1)"
    using assms(3) by (cases "update_receive_state packet c") simp
  note f = update_receive_state_fields [OF u]
  have s: "cn_config ?s = cn_config c" "sent_ack_queue ?s = sent_ack_queue c" "cn_queue ?s = cn_queue c"
    "cn_events ?s = cn_events c1" "recv_ack_queue ?s = recv_ack_queue c" "cn_modifier ?s = cn_modifier c"
    "remote_seq_number ?s = ucast (packet ! 8)" "last_receive_time ?s = clk 0" "cn_state ?s = cn_state c1"
    "random_id ?s = random_id c" "local_seq_number ?s = local_seq_number c" "cn_limiter ?s = cn_limiter c"
    "peer_address ?s = peer_address c" "last_send_time ?s = last_send_time c"
    by (simp_all add: stamped_def u f)
  have ps: "\<forall>p \<in> set (sent_ack_queue c). pending_ok p" and rate: "0 < send_rate (cn_config ?s)"
    using assms(1) s(1) by (simp_all add: conn_invar_def valid_settings_def)
  have ack: "unat (ack_of packet) < 256" by (simp add: ack_of_def)
  obtain ps' c2 where p:
    "process_acks (ack_of packet) (bitfield_of packet) (sent_ack_queue c) ?s = Some (ps', c2)"
    "ack_frame ?s c2"
    "filter (\<lambda>p. sp_state p = Unknown) ps' = filter (\<lambda>p. \<not> is_acked (ack_of packet) (bitfield_of packet) p \<and>
       \<not> timed_out ?s p) (sent_ack_queue c)"
    "cn_queue c2 = fold mq_lost_packet lost (cn_queue ?s)"
    "cn_events c2 = cn_events ?s @ map PacketLost_Event lost"
    unfolding lost
    by (rule process_acks_spec [OF ps ack rate, of "bitfield_of packet"])
  note g = ack_frame_fields [OF p(2)] and h = assms(1) [unfolded conn_invar_def]
  let ?c = "c2\<lparr>cn_modifier := modifier,
      cn_queue := mq_receive_packet (payload_after replacement (drop PACKET_HEADER_SIZE packet)) (cn_queue c2),
      sent_ack_queue := filter (\<lambda>p. sp_state p = Unknown) ps',
      recv_ack_queue := push_received (remote_seq_number c2) (recv_ack_queue c2),
      recv_packets := recv_packets c2 + 1\<rparr>"
  have stamp: "c1\<lparr>last_receive_time := clk 0, remote_seq_number := ucast (packet ! 8)\<rparr> = ?s"
    by (simp add: stamped_def u)
  have "receive_packet M packet clk c = Some (True, ?c, clock_skip 1 clk)"
    using assms(2,4) p(1) g(15) s(2,6) f(7)
    by (simp add: receive_packet_def u stamp ack_of_def bitfield_of_def)
  then show thesis
    by (rule that) (use h in \<open>simp_all add: p(3-5) g s u push_received_take del: take_Cons_numeral\<close>)
qed

lemma receive_packet_invar:
  assumes "conn_invar limiter_ok c"
  obtains accepted c' clk' where "receive_packet M packet clk c = Some (accepted, c', clk')"
    "conn_invar limiter_ok c'" "cn_limiter c' = cn_limiter c" "same_peer c c'"
proof (cases "length packet < PACKET_HEADER_SIZE \<or> \<not> fst (update_receive_state packet c)")
  case True
  obtain b c1 where u: "update_receive_state packet c = (b, c1)" by force
  note f = update_receive_state_fields [OF u]
  have inv: "conn_invar limiter_ok c1" using assms by (simp add: conn_invar_def f)
  obtain c' where "receive_packet M packet clk c = Some (False, c', clk)" "c' = c \<or> c' = c1"
    by (rule receive_packet_rejected [OF True, of M clk]) (simp add: u)
  moreover have "same_peer c c" "same_peer c c1" by (simp_all add: same_peer_def f)
  ultimately show thesis using assms inv f(8) that by metis
next
  case False
  obtain replacement modifier where
    m: "pm_incoming M (drop PACKET_HEADER_SIZE packet) (cn_modifier c) = (replacement, modifier)" by force
  have len: "PACKET_HEADER_SIZE \<le> length packet" and acc: "fst (update_receive_state packet c)"
    using False by simp_all
  note h = assms [unfolded conn_invar_def]
  show thesis
  proof (rule receive_packet_accepted [OF assms len acc m refl, of clk], goal_cases)
    case (1 c')
    have "conn_invar limiter_ok c'"
      unfolding conn_invar_def 1(9) 1(12)
    proof (intro conjI)
      show "mq_config (cn_queue c') = cn_config c"
        using h by (simp add: 1(2) send_wf_receive_packet(2))
      show "\<forall>s \<in> set (recv_ack_queue c'). unat s < 256"
        using h by (auto simp: 1(5) take_Cons' dest: in_set_takeD)
      show "\<forall>p \<in> set (sent_ack_queue c'). pending_ok p" "distinct (map sp_seq (sent_ack_queue c'))"
        using h by (simp_all add: 1(4) distinct_map_filter)
    qed (use h in \<open>simp_all add: 1 del: take_Cons_numeral\<close>)
    moreover have "same_peer c c'" by (simp add: same_peer_def 1(9,10,14))
    ultimately show thesis using 1(1,12) that by blast
  qed
qed

subsection \<open>Sending a packet\<close>

lemma closure_header:
  "header_bytes protocol @ id_bytes i @ CLOSURE_PACKET_DATA = header protocol i 0 128 0x55555555"
  by (simp add: header_def CLOSURE_PACKET_DATA_def u32_bytes_def)

text \<open>The header every packet starts with: sequence number, latest remote number and the bitfield.\<close>

definition header_seq :: "('r, 'm) connection \<Rightarrow> u8" where
  "header_seq c = (if cn_state c = Closing then 0 else ucast (local_seq_number c))"

definition header_ack :: "('r, 'm) connection \<Rightarrow> u8" where
  "header_ack c = (if cn_state c = Closing then 128 else ucast (remote_seq_number c))"

definition header_bitfield :: "('r, 'm) connection \<Rightarrow> u32" where
  "header_bitfield c =
     (if cn_state c = Closing then 0x55555555
      else the (ack_bitfield (remote_seq_number c) (recv_ack_queue c) 0))"

definition packet_header :: "('r, 'm) connection \<Rightarrow> bytes" where
  "packet_header c =
     header (protocol_header (cn_config c)) (random_id c) (header_seq c) (header_ack c) (header_bitfield c)"

lemma length_packet_header [simp]: "length (packet_header c) = 14"
  by (simp add: packet_header_def)

lemma write_packet_spec:
  assumes "conn_invar limiter_ok c"
  obtains body queue where "write_packet c = Some (packet_header c @ body, queue)"
    "mq_config queue = cn_config c"
    "if cn_state c = Closing then body = [] \<and> queue = cn_queue c
     else mq_send_packet (packet_header c) (packet_max_size (cn_config c) - PACKET_HEADER_SIZE) (cn_queue c) =
       Some (packet_header c @ body, queue)"
    "length body \<le> packet_max_size (cn_config c) - PACKET_HEADER_SIZE \<or> \<not> send_wf (cn_queue c)"
proof (cases "cn_state c = Closing")
  case True
  then have "write_packet c = Some (packet_header c @ [], cn_queue c)"
    by (simp add: write_packet_def packet_header_def header_seq_def header_ack_def header_bitfield_def
        flip: closure_header)
  with True assms that [of "[]" "cn_queue c"] show thesis by (simp add: conn_invar_def)
next
  case False
  note h = assms [unfolded conn_invar_def]
  let ?available = "packet_max_size (cn_config c) - PACKET_HEADER_SIZE"
  obtain bitfield where b: "ack_bitfield (remote_seq_number c) (recv_ack_queue c) 0 = Some bitfield"
    by (rule ack_fields [of "remote_seq_number c" "recv_ack_queue c"]) (use h in simp_all)
  have fit: "quotas_fit ?available (mq_config (cn_queue c))"
    using h by (intro percent_quotas_fit) (simp_all add: valid_settings_def less_imp_diff_less)
  obtain ms iq rq oq where s:
    "mq_send_packet (packet_header c) ?available (cn_queue c) =
      Some (packet_header c @ concat (map serialize ms), (cn_queue c)\<lparr>i_queue := iq, r_queue := rq, o_queue := oq\<rparr>)"
    "send_wf (cn_queue c) \<Longrightarrow> length (concat (map serialize ms)) \<le> ?available"
  proof (cases "send_wf (cn_queue c)")
    case True
    from mq_send_packet_wf [OF this fit, of "packet_header c"] that show thesis by metis
  next
    case False
    from mq_send_packet_spec [OF fit, of "packet_header c"] that False show thesis by metis
  qed
  have p: "write_packet c = Some (packet_header c @ concat (map serialize ms),
      (cn_queue c)\<lparr>i_queue := iq, r_queue := rq, o_queue := oq\<rparr>)"
    using False b h s(1)
    by (simp add: write_packet_def packet_header_def header_seq_def header_ack_def header_bitfield_def
        header_def valid_settings_def)
  show thesis
    by (rule that [OF p]) (use False s h in auto)
qed

text \<open>\<open>transmit_packet\<close>: the datagram handed to the socket and the record of it that is kept.\<close>

lemma transmit_packet_spec:
  assumes "conn_invar limiter_ok c"
    and w: "write_packet c = Some (packet_header c @ body, queue)"
    and m: "pm_outgoing M body (cn_modifier c) = (replacement, modifier)"
    and wire: "wire = packet_header c @ payload_after replacement body"
    and s: "sock_send_to S wire addr s = (result, s')"
  obtains c' clk' where
    "transmit_packet M S addr clk c s =
       Some (word_of_nat (if isl result then 0 else length wire), c', s', clk')"
    "cn_queue c' = mq_dismiss queue" "cn_modifier c' = modifier"
    "unat (local_seq_number c') = (unat (local_seq_number c) + 1) mod 256"
    "sent_packets c' = sent_packets c + 1"
    "if send_ack_required (local_seq_number c) c
     then \<exists>time. sent_ack_queue c' = sent_ack_queue c @
       [\<lparr>sp_seq = local_seq_number c, sp_time = time, sp_state = Unknown, sp_packet = Some wire\<rparr>]
     else sent_ack_queue c' = sent_ack_queue c"
    "c' = c\<lparr>cn_queue := cn_queue c', cn_modifier := modifier, last_send_time := last_send_time c',
       sent_ack_queue := sent_ack_queue c', local_seq_number := local_seq_number c',
       sent_packets := sent_packets c'\<rparr>"
proof -
  note h = assms(1) [unfolded conn_invar_def]
  have "unat (local_seq_number c + 1) = unat (local_seq_number c) + 1"
    using h by (simp add: unat_word_ariths)
  then have seq: "checked_add_u32 (local_seq_number c) 1 = Some (local_seq_number c + 1)"
    "unat (if local_seq_number c + 1 = MAX_SEQ_NUMBER then 0 else local_seq_number c + 1) =
       (unat (local_seq_number c) + 1) mod 256"
    using h by (auto simp: checked_add_u32_def MAX_SEQ_NUMBER_def word_unat_eq_iff)
  let ?next = "if local_seq_number c + 1 = MAX_SEQ_NUMBER then 0 else local_seq_number c + 1"
  let ?sent = "\<lambda>time. \<lparr>sp_seq = local_seq_number c, sp_time = time, sp_state = Unknown, sp_packet = Some wire\<rparr>"
  define clk1 where "clk1 = (if isl result then clk else clock_skip 1 clk)"
  define c1 where "c1 = (if isl result then c\<lparr>cn_queue := queue, cn_modifier := modifier\<rparr>
      else c\<lparr>cn_queue := queue, cn_modifier := modifier, last_send_time := clk 0\<rparr>)"
  define c' where "c' = c1\<lparr>sent_ack_queue := sent_ack_queue c @
        (if send_ack_required (local_seq_number c) c then [?sent (clk1 0)] else []),
      local_seq_number := ?next, sent_packets := sent_packets c + 1, cn_queue := mq_dismiss queue\<rparr>"
  have "transmit_packet M S addr clk c s =
      Some (word_of_nat (if isl result then 0 else length wire), c', s',
        if send_ack_required (local_seq_number c) c then clock_skip 1 clk1 else clk1)"
    using s seq(1) unfolding transmit_packet_def w
    by (cases result)
      (simp_all add: PACKET_HEADER_SIZE_def m c'_def c1_def clk1_def send_ack_required_def Let_def flip: wire)
  then show thesis
  proof (rule that)
    show "unat (local_seq_number c') = (unat (local_seq_number c) + 1) mod 256"
      unfolding c'_def using seq(2) by simp
  qed (auto simp: c'_def c1_def intro!: connection.equality)
qed

lemma send_ack_required_iff: "send_ack_required seq c \<longleftrightarrow> seq \<notin> sp_seq ` set (sent_ack_queue c)"
  by (auto simp: send_ack_required_def)

lemma transmit_packet_invar:
  assumes "conn_invar limiter_ok c"
  obtains n c' s' clk' where "transmit_packet M S addr clk c s = Some (n, c', s', clk')"
    "conn_invar limiter_ok c'" "cn_state c' = cn_state c" "cn_events c' = cn_events c"
    "recv_queue (cn_queue c') = []" "cn_limiter c' = cn_limiter c" "same_peer c c'"
proof (rule write_packet_spec [OF assms])
  fix body queue
  assume w: "write_packet c = Some (packet_header c @ body, queue)" "mq_config queue = cn_config c"
  obtain replacement modifier where m: "pm_outgoing M body (cn_modifier c) = (replacement, modifier)" by force
  let ?wire = "packet_header c @ payload_after replacement body"
  obtain result s' where s: "sock_send_to S ?wire addr s = (result, s')" by force
  note h = assms [unfolded conn_invar_def]
  show thesis
  proof (rule transmit_packet_spec [OF assms w(1) m refl s, of clk], goal_cases)
    case (1 c' clk')
    note f = 1(7)
    have fields: "cn_config c' = cn_config c" "remote_seq_number c' = remote_seq_number c"
      "recv_ack_queue c' = recv_ack_queue c" "cn_limiter c' = cn_limiter c" "cn_state c' = cn_state c"
      "cn_events c' = cn_events c" "random_id c' = random_id c" "peer_address c' = peer_address c"
      by (subst f, simp)+
    have "conn_invar limiter_ok c'"
      unfolding conn_invar_def fields
    proof (intro conjI)
      show "mq_config (cn_queue c') = cn_config c" using w(2) by (simp add: 1(2) mq_dismiss_def)
      show "unat (local_seq_number c') < 256" by (simp add: 1(4))
      show "\<forall>p \<in> set (sent_ack_queue c'). pending_ok p" "distinct (map sp_seq (sent_ack_queue c'))"
        using h 1(6)
        by (auto simp: pending_ok_def PACKET_HEADER_SIZE_def send_ack_required_iff split: if_splits)
    qed (use h in simp_all)
    with 1(1,2) fields that show thesis by (simp add: mq_dismiss_def same_peer_def)
  qed
qed

lemma update_send_state_keeps:
  assumes "update_send_state clk c = (go, c', clk')"
  shows "c' = c\<lparr>cn_state := cn_state c', cn_events := cn_events c'\<rparr>" "clk' = clock_skip 2 clk"
  using assms
  by (auto simp: update_send_state_def push_event_def Let_def split: if_splits connection_state.splits)

lemma update_send_state_fields:
  assumes "update_send_state clk c = (go, c', clk')"
  shows "cn_config c' = cn_config c" "random_id c' = random_id c" "cn_queue c' = cn_queue c"
    "remote_seq_number c' = remote_seq_number c" "local_seq_number c' = local_seq_number c"
    "recv_ack_queue c' = recv_ack_queue c" "sent_ack_queue c' = sent_ack_queue c"
    "cn_limiter c' = cn_limiter c" "cn_modifier c' = cn_modifier c" "peer_address c' = peer_address c"
    "last_receive_time c' = last_receive_time c" "last_send_time c' = last_send_time c"
    "sent_packets c' = sent_packets c" "lost_packets c' = lost_packets c" "smoothed_rtt c' = smoothed_rtt c"
  by (subst update_send_state_keeps(1) [OF assms], simp)+

lemma conn_invar_cong:
  assumes "cn_config c' = cn_config c" "mq_config (cn_queue c') = mq_config (cn_queue c)"
    "remote_seq_number c' = remote_seq_number c" "local_seq_number c' = local_seq_number c"
    "recv_ack_queue c' = recv_ack_queue c" "sent_ack_queue c' = sent_ack_queue c"
    "cn_limiter c' = cn_limiter c"
  shows "conn_invar limiter_ok c' = conn_invar limiter_ok c"
  by (simp add: conn_invar_def assms)

context rate_limiter_laws
begin

text \<open>
  \<open>send_packet\<close> in three cases: a deadline was missed or the connection is over; or the limiter is updated,
  the connection becoming \<open>c2\<close>, and the packet is held back or transmitted.
\<close>

definition limited :: "('r, 'm) connection \<Rightarrow> 'r \<Rightarrow> ('r, 'm) connection" where
  "limited c limiter =
     (if rl_congested R (cn_limiter c) \<noteq> rl_congested R limiter
      then push_event (CongestionStateChanged_Event (\<not> rl_congested R (cn_limiter c))) (c\<lparr>cn_limiter := limiter\<rparr>)
      else c\<lparr>cn_limiter := limiter\<rparr>)"

lemma limited_fields:
  "cn_state (limited c limiter) = cn_state c" "cn_queue (limited c limiter) = cn_queue c"
  "cn_limiter (limited c limiter) = limiter" "sent_ack_queue (limited c limiter) = sent_ack_queue c"
  "\<exists>es. cn_events (limited c limiter) = cn_events c @ es \<and> set es \<subseteq> range CongestionStateChanged_Event"
  "cn_config (limited c limiter) = cn_config c" "random_id (limited c limiter) = random_id c"
  "peer_address (limited c limiter) = peer_address c"
  by (auto simp: limited_def push_event_def)

lemma send_packet_cases:
  assumes "conn_invar invar c"
  obtains
    (stopped) c1 where "update_send_state clk c = (False, c1, clock_skip 2 clk)"
      "send_packet R M S addr clk c s = Some (0, c1, s, clock_skip 2 clk)" "conn_invar invar c1"
  | (going) c1 limiter clk2 where "update_send_state clk c = (True, c1, clock_skip 2 clk)"
      "rl_update R (rtt c1) (packet_loss c1) (clock_skip 2 clk) (cn_limiter c1) = Some (limiter, clk2)"
      "conn_invar invar (limited c1 limiter)"
      "send_packet R M S addr clk c s =
         (if rl_should_send R limiter then transmit_packet M S addr clk2 (limited c1 limiter) s
          else Some (0, limited c1 limiter, s, clk2))"
proof -
  obtain go c1 clk1 where u: "update_send_state clk c = (go, c1, clk1)"
    by (cases "update_send_state clk c") auto
  note clk1 = update_send_state_keeps(2) [OF u]
  have inv1: "conn_invar invar c1" using assms by (simp add: conn_invar_def update_send_state_fields [OF u])
  show thesis
  proof (cases go)
    case False
    with u inv1 clk1 stopped show thesis by (simp add: send_packet_def)
  next
    case True
    have "invar (cn_limiter c1)" using inv1 by (simp add: conn_invar_def)
    then obtain limiter clk2 where
      l: "rl_update R (rtt c1) (packet_loss c1) clk1 (cn_limiter c1) = Some (limiter, clk2)" "invar limiter"
      using update_total update_invar by metis
    have "conn_invar invar (limited c1 limiter)"
      using inv1 l(2) by (auto simp: limited_def conn_invar_def push_event_def)
    moreover have "send_packet R M S addr clk c s =
         (if rl_should_send R limiter then transmit_packet M S addr clk2 (limited c1 limiter) s
          else Some (0, limited c1 limiter, s, clk2))"
      by (simp add: send_packet_def u True l(1) limited_def Let_def)
    ultimately show thesis using going u True clk1 l(1) by simp
  qed
qed

lemma send_packet_invar:
  assumes "conn_invar invar c"
  obtains n c' s' clk' where "send_packet R M S addr clk c s = Some (n, c', s', clk')"
    "conn_invar invar c'" "same_peer c c'" "cn_state c' = cn_state (fst (snd (update_send_state clk c)))"
proof (rule send_packet_cases [OF assms, of clk M S addr s])
  fix c1
  assume u: "update_send_state clk c = (False, c1, clock_skip 2 clk)"
    and "send_packet R M S addr clk c s = Some (0, c1, s, clock_skip 2 clk)" "conn_invar invar c1"
  with update_send_state_fields [OF u] that show thesis by (simp add: same_peer_def)
next
  fix c1 limiter clk2
  assume u: "update_send_state clk c = (True, c1, clock_skip 2 clk)"
    and invar: "conn_invar invar (limited c1 limiter)"
    and send: "send_packet R M S addr clk c s =
       (if rl_should_send R limiter then transmit_packet M S addr clk2 (limited c1 limiter) s
        else Some (0, limited c1 limiter, s, clk2))"
  have same: "same_peer c (limited c1 limiter)" "cn_state (limited c1 limiter) = cn_state c1"
    using update_send_state_fields [OF u] limited_fields [of c1 limiter] by (simp_all add: same_peer_def)
  show thesis
  proof (cases "rl_should_send R limiter")
    case True
    show thesis
    proof (rule transmit_packet_invar [OF invar, of M S addr clk2 s])
      fix n c' s' clk'
      assume "transmit_packet M S addr clk2 (limited c1 limiter) s = Some (n, c', s', clk')" "conn_invar invar c'"
        "cn_state c' = cn_state (limited c1 limiter)" "same_peer (limited c1 limiter) c'"
      with that [of n c' s' clk'] same show thesis by (simp add: send True u same_peer_def)
    qed
  next
    case False
    with send invar that same u show thesis by simp
  qed
qed

lemma connection_reset_invar:
  "conn_invar invar c \<Longrightarrow> conn_invar invar (fst (connection_reset R clk c))"
  using reset_invar [of "cn_limiter c" "clock_skip 2 clk"]
  by (cases "rl_reset R (clock_skip 2 clk) (cn_limiter c)")
    (simp add: connection_reset_def conn_invar_def mq_reset_def)

end

subsection \<open>Reachable connections\<close>

text \<open>Any use of a connection with valid settings: any packet, socket, address and clock, in any order.\<close>

inductive conn_reachable ::
  "'r rate_limiter \<Rightarrow> 'm packet_modifier \<Rightarrow> 's socket \<Rightarrow> (config \<Rightarrow> bool) \<Rightarrow> ('r, 'm) connection \<Rightarrow> bool"
  for R :: "'r rate_limiter" and M :: "'m packet_modifier" and S :: "'s socket" and limiter_config :: "config \<Rightarrow> bool"
where
  cr_new:
    "valid_settings config \<Longrightarrow> limiter_config config \<Longrightarrow>
     conn_reachable R M S limiter_config
       (fst (connection_new config local_addr peer_addr (fst (rl_new R config clk)) (pm_new M config) random clk'))"
| cr_receive:
    "conn_reachable R M S limiter_config c \<Longrightarrow> receive_packet M packet clk c = Some (accepted, c', clk') \<Longrightarrow>
     conn_reachable R M S limiter_config c'"
| cr_send_packet:
    "conn_reachable R M S limiter_config c \<Longrightarrow> send_packet R M S addr clk c s = Some (n, c', s', clk') \<Longrightarrow>
     conn_reachable R M S limiter_config c'"
| cr_send: "conn_reachable R M S limiter_config c \<Longrightarrow> conn_reachable R M S limiter_config (connection_send kind payload c)"
| cr_events: "conn_reachable R M S limiter_config c \<Longrightarrow> conn_reachable R M S limiter_config (snd (connection_events c))"
| cr_config:
    "conn_reachable R M S limiter_config c \<Longrightarrow> valid_settings config \<Longrightarrow>
     conn_reachable R M S limiter_config (connection_set_config config c)"
| cr_id: "conn_reachable R M S limiter_config c \<Longrightarrow> conn_reachable R M S limiter_config (set_id i c)"
| cr_peer: "conn_reachable R M S limiter_config c \<Longrightarrow> conn_reachable R M S limiter_config (set_peer_addr addr c)"
| cr_reset: "conn_reachable R M S limiter_config c \<Longrightarrow> conn_reachable R M S limiter_config (fst (connection_reset R clk c))"
| cr_close: "conn_reachable R M S limiter_config c \<Longrightarrow> conn_reachable R M S limiter_config (connection_close c)"

lemma mq_send_config [simp]: "mq_config (mq_send kind payload q) = mq_config q"
  by (cases kind) (simp_all add: mq_send_def Let_def)

lemma conn_invar_simple_ops:
  "conn_invar ok (connection_send kind payload c) = conn_invar ok c"
  "conn_invar ok (snd (connection_events c)) = conn_invar ok c"
  "conn_invar ok (set_id i c) = conn_invar ok c"
  "conn_invar ok (set_peer_addr addr c) = conn_invar ok c"
  "conn_invar ok (connection_close c) = conn_invar ok c"
  by (rule conn_invar_cong; simp add: connection_send_def connection_events_def set_id_def
      set_peer_addr_def connection_close_def split_beta)+

lemma conn_invar_new:
  "valid_settings config \<Longrightarrow> ok limiter \<Longrightarrow>
   conn_invar ok (fst (connection_new config local_addr peer_addr limiter modifier random clk))"
  by (simp add: connection_new_def conn_invar_def mq_new_def)

lemma conn_invar_set_config:
  "conn_invar ok c \<Longrightarrow> valid_settings config \<Longrightarrow> conn_invar ok (connection_set_config config c)"
  by (simp add: connection_set_config_def conn_invar_def mq_set_config_def)

text \<open>What the application may do with a connection it is lent.\<close>

definition fair_use :: "('r \<Rightarrow> bool) \<Rightarrow> (('r, 'm) connection \<Rightarrow> ('r, 'm) connection) \<Rightarrow> bool" where
  "fair_use limiter_ok use \<longleftrightarrow>
     (\<forall>c. conn_invar limiter_ok c \<longrightarrow> conn_invar limiter_ok (use c) \<and> same_peer c (use c))"

lemma same_peer_simple_ops:
  "same_peer c (connection_send kind payload c)" "same_peer c (snd (connection_events c))"
  "same_peer c (connection_close c)" "same_peer c (fst (connection_reset R clk c))"
  by (auto simp: same_peer_def connection_send_def connection_events_def connection_close_def connection_reset_def
      split: prod.splits)

lemma same_peer_refl [simp]: "same_peer c c"
  by (simp add: same_peer_def)

lemma same_peer_trans: "same_peer a b \<Longrightarrow> same_peer b c \<Longrightarrow> same_peer a c"
  by (simp add: same_peer_def)

lemma fair_use_api:
  "fair_use ok (connection_send kind payload)" "fair_use ok (\<lambda>c. snd (connection_events c))"
  "fair_use ok connection_close"
  by (simp_all add: fair_use_def conn_invar_simple_ops same_peer_simple_ops)

lemma set_config_fields:
  "cn_config (connection_set_config config c) = config" "random_id (connection_set_config config c) = random_id c"
  "peer_address (connection_set_config config c) = peer_address c"
  "cn_events (connection_set_config config c) = cn_events c"
  by (simp_all add: connection_set_config_def)

context rate_limiter_laws
begin

lemma conn_reachable_invar:
  fixes M :: "'m packet_modifier" and S :: "'s socket"
  shows "conn_reachable R M S valid_config c \<Longrightarrow> conn_invar invar c"
proof (induction rule: conn_reachable.induct)
  case (cr_new config local_addr peer_addr clk random clk')
  then show ?case by (intro conn_invar_new new_invar)
next
  case (cr_receive c packet clk accepted c' clk')
  then show ?case
    using receive_packet_invar [of invar c M packet clk] by (metis option.inject prod.inject)
next
  case (cr_send_packet c addr clk s n c' s' clk')
  then show ?case
    using send_packet_invar [of c M S addr clk s] by (metis option.inject prod.inject)
qed (simp_all add: conn_invar_simple_ops conn_invar_set_config connection_reset_invar)

end

lemmas binary_conn_invar = binary.conn_reachable_invar
lemmas binary_send_packet_invar = binary.send_packet_invar

end
