(* ===== verification/Connection_States.thy ===== *)
theory Connection_States
  imports Connection_Invariant
begin

text \<open>
  The life of a connection as an abstract automaton over its events, and the lemmas that the concrete
  operations follow it: every state change is announced by exactly one event, and the final states take
  no packet, send none and emit nothing.
\<close>

subsection \<open>The abstract automaton\<close>

fun event_step :: "connection_state \<Rightarrow> connection_event \<Rightarrow> connection_state option" where
  "event_step s (Message_Event payload) = Some s"
| "event_step s (PacketLost_Event payload) = Some s"
| "event_step s (CongestionStateChanged_Event congested) = Some s"
| "event_step Connecting Connected_Event = Some Connected"
| "event_step Connecting FailedToConnect_Event = Some FailedToConnect"
| "event_step Connected (Lost_Event by_remote) = Some Lost"
| "event_step Connected (Closed_Event True) = Some Closed"
| "event_step Closing (Closed_Event False) = Some Closed"
| "event_step s e = None"

fun run_events :: "connection_state \<Rightarrow> connection_event list \<Rightarrow> connection_state option" where
  "run_events s [] = Some s"
| "run_events s (e # es) = do { s' \<leftarrow> event_step s e; run_events s' es }"

lemma run_events_append:
  "run_events s (xs @ ys) = do { s' \<leftarrow> run_events s xs; run_events s' ys }"
  by (induction s xs rule: run_events.induct) (auto split: bind_splits)

lemma run_events_lost [simp]: "run_events s (map PacketLost_Event payloads) = Some s"
  by (induction payloads) simp_all

definition final :: "connection_state \<Rightarrow> bool" where
  "final s \<longleftrightarrow> s = Lost \<or> s = Closed \<or> s = FailedToConnect"

text \<open>From a final state the automaton goes nowhere.\<close>

lemma event_step_final: "final s \<Longrightarrow> event_step s e = Some s' \<Longrightarrow> s' = s"
  by (cases s; cases e) (auto simp: final_def)

lemma run_events_final: "final s \<Longrightarrow> run_events s es = Some s' \<Longrightarrow> s' = s"
  by (induction s es rule: run_events.induct) (auto simp: bind_Some_iff dest: event_step_final)

text \<open>A connection that has got its first packet never connects again, and cannot fail to connect.\<close>

lemma event_step_started:
  "s \<noteq> Connecting \<Longrightarrow> event_step s e = Some s' \<Longrightarrow> s' \<noteq> Connecting \<and> e \<noteq> FailedToConnect_Event"
  by (induction s e rule: event_step.induct) auto

lemma run_events_started:
  "s \<noteq> Connecting \<Longrightarrow> run_events s es = Some s' \<Longrightarrow> s' \<noteq> Connecting \<and> FailedToConnect_Event \<notin> set es"
  by (induction s es rule: run_events.induct) (auto simp: bind_Some_iff dest: event_step_started)

text \<open>
  The life of a connection also has the calls by which its owner changes the state: \<open>close\<close> and \<open>reset\<close>, which
  the source announces with no event.
\<close>

datatype life_step = Announced connection_event | Close_Called | Reset_Called

fun run_life_step :: "connection_state \<Rightarrow> life_step \<Rightarrow> connection_state option" where
  "run_life_step s (Announced e) = event_step s e"
| "run_life_step s Close_Called = Some Closing"
| "run_life_step s Reset_Called = Some Connecting"

fun run_life :: "connection_state \<Rightarrow> life_step list \<Rightarrow> connection_state option" where
  "run_life s [] = Some s"
| "run_life s (t # ts) = do { s' \<leftarrow> run_life_step s t; run_life s' ts }"

fun announced :: "life_step list \<Rightarrow> connection_event list" where
  "announced [] = []"
| "announced (Announced e # ts) = e # announced ts"
| "announced (_ # ts) = announced ts"

lemma run_life_append: "run_life s (xs @ ys) = do { s' \<leftarrow> run_life s xs; run_life s' ys }"
  by (induction s xs rule: run_life.induct) (auto split: bind_splits)

lemma run_life_announced: "run_life s (map Announced es) = run_events s es"
  by (induction s es rule: run_events.induct) (auto split: bind_splits)

lemma announced_append [simp]: "announced (xs @ ys) = announced xs @ announced ys"
  by (induction xs rule: announced.induct) simp_all

lemma announced_map [simp]: "announced (map Announced es) = es"
  by (induction es) simp_all

text \<open>How the events of an operation extend those of the connection.\<close>

definition follows :: "('r, 'm) connection \<Rightarrow> ('r, 'm) connection \<Rightarrow> bool" where
  "follows c c' \<longleftrightarrow>
     (\<exists>es. cn_events c' = cn_events c @ es \<and> run_events (cn_state c) es = Some (cn_state c'))"

lemma follows_refl: "cn_events c' = cn_events c \<Longrightarrow> cn_state c' = cn_state c \<Longrightarrow> follows c c'"
  by (auto simp: follows_def intro: exI [of _ "[]"])

lemma follows_trans: "follows a b \<Longrightarrow> follows b c \<Longrightarrow> follows a c"
  unfolding follows_def by (fastforce simp: run_events_append)

lemma update_receive_follows: "update_receive_state packet c = (accepted, c') \<Longrightarrow> follows c c'"
  by (auto simp: update_receive_state_def push_event_def follows_def split: if_splits connection_state.splits)

lemma update_send_follows: "update_send_state clk c = (go, c', clk') \<Longrightarrow> follows c c'"
  by (auto simp: update_send_state_def push_event_def follows_def Let_def split: if_splits connection_state.splits)

lemma receive_packet_follows:
  assumes "conn_invar limiter_ok c" "receive_packet M packet clk c = Some (accepted, c', clk')"
  shows "follows c c'"
proof -
  obtain b c1 where u: "update_receive_state packet c = (b, c1)" by force
  note f = update_receive_follows [OF u]
  show ?thesis
  proof (cases "length packet < PACKET_HEADER_SIZE \<or> \<not> fst (update_receive_state packet c)")
    case True
    then show ?thesis
      by (rule receive_packet_rejected [of packet c M clk])
        (use assms(2) f u in \<open>auto intro: follows_refl\<close>)
  next
    case False
    obtain replacement modifier where
      m: "pm_incoming M (drop PACKET_HEADER_SIZE packet) (cn_modifier c) = (replacement, modifier)" by force
    have len: "PACKET_HEADER_SIZE \<le> length packet" and acc: "fst (update_receive_state packet c)"
      using False by simp_all
    show ?thesis
    proof (rule receive_packet_accepted [OF assms(1) len acc m refl, of clk], goal_cases)
      case (1 c2)
      with assms(2) have "c2 = c'" by simp
      with 1(3,8) have "follows c1 c'" by (auto simp: follows_def u)
      with f show ?thesis by (rule follows_trans)
    qed
  qed
qed

context rate_limiter_laws
begin

lemma send_packet_follows:
  assumes "conn_invar invar c" "send_packet R M S addr clk c s = Some (n, c', s', clk')"
  shows "follows c c'"
proof (rule send_packet_cases [OF assms(1), of clk M S addr s])
  fix c1
  assume "update_send_state clk c = (False, c1, clock_skip 2 clk)"
    "send_packet R M S addr clk c s = Some (0, c1, s, clock_skip 2 clk)"
  with assms(2) update_send_follows show ?thesis by fastforce
next
  fix c1 limiter clk2
  assume u: "update_send_state clk c = (True, c1, clock_skip 2 clk)"
    and invar: "conn_invar invar (limited c1 limiter)"
    and send: "send_packet R M S addr clk c s =
       (if rl_should_send R limiter then transmit_packet M S addr clk2 (limited c1 limiter) s
        else Some (0, limited c1 limiter, s, clk2))"
  let ?c = "limited c1 limiter"
  from limited_fields(5) [of c1 limiter] obtain es where
    es: "cn_events ?c = cn_events c1 @ es" "set es \<subseteq> range CongestionStateChanged_Event" by blast
  from es(2) have "run_events (cn_state c1) es = Some (cn_state c1)" by (induction es) auto
  then have f: "follows c1 ?c" using es(1) by (auto simp: follows_def limited_fields)
  have "follows ?c c'"
  proof (cases "rl_should_send R limiter")
    case True
    show ?thesis
    proof (rule transmit_packet_invar [OF invar, of M S addr clk2 s])
      fix n1 c3 s3 clk3
      assume "transmit_packet M S addr clk2 ?c s = Some (n1, c3, s3, clk3)"
        and same: "cn_state c3 = cn_state ?c" "cn_events c3 = cn_events ?c"
      with True send assms(2) have "c3 = c'" by simp
      with same show ?thesis by (auto intro: follows_refl)
    qed
  next
    case False
    with send assms(2) show ?thesis by (auto intro: follows_refl)
  qed
  with update_send_follows [OF u] f show ?thesis by (blast intro: follows_trans)
qed

end

text \<open>The final states are silent.\<close>

lemma final_receive:
  "final (cn_state c) \<Longrightarrow> receive_packet M packet clk c = Some (False, c, clk)"
  by (auto simp: receive_packet_def update_receive_state_def final_def split: connection_state.splits)

lemma final_send:
  "final (cn_state c) \<Longrightarrow> send_packet R M S addr clk c s = Some (0, c, s, clock_skip 2 clk)"
  by (auto simp: send_packet_def update_send_state_def final_def Let_def split: connection_state.splits)

text \<open>The deadline each state has, and what happens when it is missed.\<close>

definition receive_deadline :: "('r, 'm) connection \<Rightarrow> duration" where
  "receive_deadline c =
     (case cn_state c of
        Connecting \<Rightarrow> connection_init_threshold (cn_config c)
      | Connected \<Rightarrow> connection_drop_threshold (cn_config c)
      | _ \<Rightarrow> connection_closing_threshold (cn_config c))"

fun timeout_event :: "connection_state \<Rightarrow> connection_event" where
  "timeout_event Connecting = FailedToConnect_Event"
| "timeout_event Connected = Lost_Event True"
| "timeout_event s = Closed_Event False"

lemma missed_deadline:
  assumes "\<not> final (cn_state c)" "clk 0 - last_receive_time c > receive_deadline c"
  shows "\<exists>c'. send_packet R M S addr clk c s = Some (0, c', s, clock_skip 2 clk) \<and> final (cn_state c') \<and>
    cn_events c' = cn_events c @ [timeout_event (cn_state c)]"
  using assms
  by (cases "cn_state c")
    (auto simp: send_packet_def update_send_state_def receive_deadline_def final_def push_event_def Let_def)

end
