(* ===== verification/Connection_Delivery.thy ===== *)
theory Connection_Delivery
  imports Connection_States
begin

text \<open>
  From one end to the other: the receiver reads back the header the sender wrote, and takes the messages
  of an accepted packet, whatever modifier lies between, as long as the incoming hook undoes the outgoing
  one.
\<close>

subsection \<open>The header read back\<close>

lemma packet_header_fields:
  assumes "conn_invar ok c" "cn_state c \<noteq> Closing" "packet = packet_header c @ body"
  shows "id_from_packet (cn_config c) packet = Some (random_id c)"
    "ucast (packet ! 8) = local_seq_number c" "ack_of packet = remote_seq_number c"
    "ack_bitfield (remote_seq_number c) (recv_ack_queue c) 0 = Some (bitfield_of packet)"
    "take 4 packet = header_bytes (protocol_header (cn_config c))" "drop 14 packet = body"
    "length packet = 14 + length body" "packet ! 8 = ucast (local_seq_number c)"
proof -
  note h = assms(1) [unfolded conn_invar_def]
  note p = header_fields [OF assms(3) [unfolded packet_header_def]]
  show "id_from_packet (cn_config c) packet = Some (random_id c)"
    unfolding assms(3) packet_header_def by (rule header_id) simp
  show "ucast (packet ! 8) = local_seq_number c" "ack_of packet = remote_seq_number c"
    using h assms(2) by (simp_all add: ack_of_def p header_seq_def header_ack_def ucast_seq)
  obtain bitfield where "ack_bitfield (remote_seq_number c) (recv_ack_queue c) 0 = Some bitfield"
    by (rule ack_fields [of "remote_seq_number c" "recv_ack_queue c"]) (use h in simp_all)
  then show "ack_bitfield (remote_seq_number c) (recv_ack_queue c) 0 = Some (bitfield_of packet)"
    using assms(2) by (simp add: bitfield_of_def p header_bitfield_def)
  show "take 4 packet = header_bytes (protocol_header (cn_config c))" "drop 14 packet = body"
    "length packet = 14 + length body" "packet ! 8 = ucast (local_seq_number c)"
    using assms(2) by (simp_all add: p header_seq_def)
qed

lemma acked_iff_acknowledges:
  assumes "conn_invar ok c" "cn_state c \<noteq> Closing" "packet = packet_header c @ body" "unat seq < 256"
  shows "seq_was_acked seq (ack_of packet) (bitfield_of packet) =
    Some (acknowledges (remote_seq_number c) (recv_ack_queue c) seq)"
proof (rule ack_fields [of "remote_seq_number c" "recv_ack_queue c"])
  fix bitfield
  assume "ack_bitfield (remote_seq_number c) (recv_ack_queue c) 0 = Some bitfield"
    and "\<And>seq. unat seq < 256 \<Longrightarrow> seq_was_acked seq (remote_seq_number c) bitfield =
       Some (acknowledges (remote_seq_number c) (recv_ack_queue c) seq)"
  with packet_header_fields(3,4) [OF assms(1-3)] assms(4) show ?thesis by simp
qed (use assms(1) in \<open>simp_all add: conn_invar_def\<close>)

subsection \<open>One packet from end to end\<close>

lemma closure_number:
  assumes "14 \<le> length packet" "ucast (packet ! 8) \<noteq> (0 :: u32)"
  shows "take 6 (drop 8 packet) \<noteq> CLOSURE_PACKET_DATA"
proof
  assume "take 6 (drop 8 packet) = CLOSURE_PACKET_DATA"
  then have "take 6 (drop 8 packet) ! 0 = 0" by (simp only: CLOSURE_PACKET_DATA_def nth_Cons_0)
  then have "packet ! 8 = 0" using assms(1) by (simp add: nth_drop)
  with assms(2) show False by simp
qed

text \<open>The messages a written packet holds.\<close>

lemma write_packet_messages:
  assumes "conn_invar ok c" "cn_state c \<noteq> Closing" "send_wf (cn_queue c)"
  obtains ms queue where "write_packet c = Some (packet_header c @ concat (map serialize ms), queue)"
    "messages_from_packet (concat (map serialize ms)) = ms"
    "of_kind Instant ms @ i_queue queue = i_queue (cn_queue c)"
    "of_kind Reliable ms @ r_queue queue = r_queue (cn_queue c)"
    "of_kind Ordered ms @ o_queue queue = o_queue (cn_queue c)"
    "length (concat (map serialize ms)) \<le> packet_max_size (cn_config c) - PACKET_HEADER_SIZE"
    "\<forall>m \<in> set ms. wf_message m" "send_wf queue"
proof -
  let ?available = "packet_max_size (cn_config c) - PACKET_HEADER_SIZE"
  have "quotas_fit ?available (mq_config (cn_queue c))"
    using assms(1)
    by (intro percent_quotas_fit) (simp_all add: conn_invar_def valid_settings_def less_imp_diff_less)
  note fit = this
  then show thesis
  proof (rule mq_send_packet_wf [OF assms(3), of ?available "packet_header c"])
    fix ms iq rq oq
    let ?queue = "(cn_queue c)\<lparr>i_queue := iq, r_queue := rq, o_queue := oq\<rparr>"
    assume send: "mq_send_packet (packet_header c) ?available (cn_queue c) =
        Some (packet_header c @ concat (map serialize ms), ?queue)"
      and parts: "messages_from_packet (concat (map serialize ms)) = ms"
        "i_queue (cn_queue c) = of_kind Instant ms @ iq" "r_queue (cn_queue c) = of_kind Reliable ms @ rq"
        "o_queue (cn_queue c) = of_kind Ordered ms @ oq" "length (concat (map serialize ms)) \<le> ?available"
      and wf: "\<And>m. m \<in> set ms \<union> set iq \<union> set rq \<union> set oq \<Longrightarrow> wf_message m"
    have wf: "send_wf ?queue" "\<forall>m \<in> set ms. wf_message m"
      using send_wf_send_packet [OF assms(3) fit send] wf by blast+
    have "write_packet c = Some (packet_header c @ concat (map serialize ms), ?queue)"
      by (rule write_packet_spec [OF assms(1)]) (use assms(2) send in simp)
    then show thesis by (rule that) (use parts wf in simp_all)
  qed
qed

text \<open>When a peer accepts what another one wrote.\<close>

lemma written_packet_accepted:
  assumes "conn_invar ok c" "cn_state c \<noteq> Closing" "packet = packet_header c @ body"
    and "protocol_header (cn_config d) = protocol_header (cn_config c)"
    and "cn_state d = Connecting \<or>
      cn_state d = Connected \<and> seq_is_more_recent (local_seq_number c) (remote_seq_number d) \<and> local_seq_number c \<noteq> 0"
  shows "fst (update_receive_state packet d)" "cn_state (snd (update_receive_state packet d)) = Connected"
proof -
  note f = packet_header_fields [OF assms(1-3)]
  have "local_seq_number c \<noteq> 0 \<Longrightarrow> take 6 (drop 8 packet) \<noteq> CLOSURE_PACKET_DATA"
    by (rule closure_number) (simp_all add: f(2,7))
  then show "fst (update_receive_state packet d)" "cn_state (snd (update_receive_state packet d)) = Connected"
    using assms(5) f(2) by (auto simp: update_receive_state_def f(5) assms(4) push_event_def)
qed

context inverse_modifier
begin

lemma transmitted_packet_delivers:
  assumes "conn_invar ok c" "cn_state c \<noteq> Closing" "send_wf (cn_queue c)" "conn_invar ok' d"
    and "paired (cn_modifier c) (cn_modifier d)"
    and "protocol_header (cn_config d) = protocol_header (cn_config c)"
    and "cn_state d = Connecting \<or>
      cn_state d = Connected \<and> seq_is_more_recent (local_seq_number c) (remote_seq_number d) \<and> local_seq_number c \<noteq> 0"
  obtains wire body ms lost n c' clk' d' where
    "wire = packet_header c @ payload_after (fst (pm_outgoing M body (cn_modifier c))) body"
    "length body \<le> packet_max_size (cn_config c) - PACKET_HEADER_SIZE"
    "transmit_packet M S addr clk c s = Some (n, c', snd (sock_send_to S wire addr s), clk')"
    "send_ack_required (local_seq_number c) c \<longrightarrow> sp_packet (last (sent_ack_queue c')) = Some wire"
    "of_kind Instant ms @ i_queue (cn_queue c') = i_queue (cn_queue c)"
    "of_kind Reliable ms @ r_queue (cn_queue c') = r_queue (cn_queue c)"
    "of_kind Ordered ms @ o_queue (cn_queue c') = o_queue (cn_queue c)"
    "receive_packet M wire clk1 d = Some (True, d', clock_skip 1 clk1)"
    "cn_queue d' = fold receive_message ms (fold mq_lost_packet lost (cn_queue d))" "cn_state d' = Connected"
    "paired (cn_modifier c') (cn_modifier d')"
proof (rule write_packet_messages [OF assms(1-3)])
  fix ms queue
  let ?body = "concat (map serialize ms)"
  assume w: "write_packet c = Some (packet_header c @ ?body, queue)"
    and parse: "messages_from_packet ?body = ms"
    and queues: "of_kind Instant ms @ i_queue queue = i_queue (cn_queue c)"
      "of_kind Reliable ms @ r_queue queue = r_queue (cn_queue c)"
      "of_kind Ordered ms @ o_queue queue = o_queue (cn_queue c)"
    and len: "length ?body \<le> packet_max_size (cn_config c) - PACKET_HEADER_SIZE"
  obtain out m where o: "pm_outgoing M ?body (cn_modifier c) = (out, m)" by force
  obtain in' m' where i: "pm_incoming M (payload_after out ?body) (cn_modifier d) = (in', m')" by force
  note inv = inverse [OF assms(5) o i]
  define wire where "wire = packet_header c @ payload_after out ?body"
  obtain result s' where s: "sock_send_to S wire addr s = (result, s')" by force
  have body: "drop PACKET_HEADER_SIZE wire = payload_after out ?body" and long: "PACKET_HEADER_SIZE \<le> length wire"
    by (simp_all add: wire_def PACKET_HEADER_SIZE_def)
  note acc = written_packet_accepted [OF assms(1,2) wire_def assms(6,7)]
  show thesis
  proof (rule transmit_packet_spec [OF assms(1) w o wire_def s, of clk], goal_cases)
    case sent: (1 c' clk')
    have q: "i_queue (cn_queue c') = i_queue queue" "r_queue (cn_queue c') = r_queue queue"
      "o_queue (cn_queue c') = o_queue queue"
      by (simp_all add: sent(2) mq_dismiss_def)
    have pend: "send_ack_required (local_seq_number c) c \<longrightarrow> sp_packet (last (sent_ack_queue c')) = Some wire"
      using sent(6) by auto
    show thesis
    proof (rule receive_packet_accepted [OF assms(4) long acc(1) i [folded body] refl, of clk1], goal_cases)
      case received: (1 d')
      show thesis
      proof (rule that)
        show "cn_queue d' = fold receive_message ms (fold mq_lost_packet
            (lost_payloads (ack_of wire) (bitfield_of wire) (stamped wire clk1 d) (sent_ack_queue d)) (cn_queue d))"
          unfolding received(2) body using inv by (simp add: mq_receive_packet_def parse)
        show "wire = packet_header c @ payload_after (fst (pm_outgoing M ?body (cn_modifier c))) ?body"
          by (simp add: wire_def o)
        show "transmit_packet M S addr clk c s =
            Some (word_of_nat (if isl result then 0 else length wire), c', snd (sock_send_to S wire addr s), clk')"
          using sent(1) s by simp
        show "paired (cn_modifier c') (cn_modifier d')" using inv by (simp add: sent(3) received(13))
        show "cn_state d' = Connected" using received(8) acc(2) by simp
      qed (use len pend queues q received(1) in simp_all)
    qed
  qed
qed

end

end
