(* ===== verification/Queue_Session.thy ===== *)
theory Queue_Session
  imports Queue_Receiving
begin

text \<open>
  Two message queues joined by a network: the sender queues messages and writes packets, the network
  hands any packet ever sent to the receiver, in any order and any number of times, and reports any
  of them to the sender as lost. The invariant relates the receiver to the specification of
  \<open>Queue_Receiving\<close> over the ordered messages that have arrived.
\<close>

subsection \<open>The receive queue is only appended to\<close>

lemma drain_heap_frame:
  "\<exists>ys. recv_queue (drain_heap q) = recv_queue q @ ys \<and>
     (\<forall>xs. drain_heap (q\<lparr>recv_queue := xs\<rparr>) = (drain_heap q)\<lparr>recv_queue := xs @ ys\<rparr>)"
proof (induction q rule: drain_heap.induct)
  case (1 q)
  show ?case
  proof (cases "\<exists>m heap. o_recv_heap q = m # heap \<and> m_order m = remote_order_id q")
    case False
    then have "drain_heap (q\<lparr>recv_queue := xs\<rparr>) = q\<lparr>recv_queue := xs\<rparr>" for xs
      by (subst drain_heap.simps) (auto simp: heap_peek_def Let_def split: list.splits)
    moreover from this [of "recv_queue q"] have "drain_heap q = q" by simp
    ultimately show ?thesis by (intro exI [of _ "[]"]) simp
  next
    case True
    then obtain m heap where h: "o_recv_heap q = m # heap" "m_order m = remote_order_id q" by blast
    let ?q = "\<lambda>xs. q\<lparr>o_recv_set := o_recv_set q - {remote_order_id q}, o_recv_heap := heap,
        recv_queue := xs @ [m], remote_order_id := next_order (remote_order_id q)\<rparr>"
    have step: "drain_heap (q\<lparr>recv_queue := xs\<rparr>) = drain_heap (?q xs)" for xs
      using h by (subst drain_heap.simps) (simp add: heap_peek_def heap_pop_def)
    have "\<exists>ys. recv_queue (drain_heap (?q (recv_queue q))) = (recv_queue q @ [m]) @ ys \<and>
        (\<forall>xs. drain_heap (?q (recv_queue q)\<lparr>recv_queue := xs\<rparr>) =
          (drain_heap (?q (recv_queue q)))\<lparr>recv_queue := xs @ ys\<rparr>)"
      using "1.IH" [of True "(m, heap)" m heap] h by (simp add: heap_peek_def heap_pop_def)
    then obtain ys where ys: "recv_queue (drain_heap (?q (recv_queue q))) = recv_queue q @ m # ys"
      "\<And>xs. drain_heap (?q (recv_queue q)\<lparr>recv_queue := xs\<rparr>) =
          (drain_heap (?q (recv_queue q)))\<lparr>recv_queue := xs @ ys\<rparr>"
      by auto
    have now: "drain_heap q = drain_heap (?q (recv_queue q))"
      using step [of "recv_queue q"] by simp
    have e: "?q (recv_queue q)\<lparr>recv_queue := xs @ [m]\<rparr> = ?q xs" for xs
      by (rule message_queue.equality) simp_all
    have "drain_heap (?q xs) = (drain_heap (?q (recv_queue q)))\<lparr>recv_queue := xs @ m # ys\<rparr>" for xs
      using ys(2) [of "xs @ [m]", unfolded e] by simp
    then show ?thesis
      unfolding step now using ys(1) by blast
  qed
qed

lemma receive_ordered_frame:
  "\<exists>ys. recv_queue (receive_ordered_message m q) = recv_queue q @ ys \<and>
     (\<forall>xs. receive_ordered_message m (q\<lparr>recv_queue := xs\<rparr>) =
        (receive_ordered_message m q)\<lparr>recv_queue := xs @ ys\<rparr>)"
proof (cases "m_order m = remote_order_id q")
  case True
  let ?q = "q\<lparr>recv_queue := recv_queue q @ [m], remote_order_id := next_order (remote_order_id q)\<rparr>"
  from drain_heap_frame [of ?q] obtain ys where ys:
    "recv_queue (drain_heap ?q) = recv_queue ?q @ ys"
    "\<And>xs. drain_heap (?q\<lparr>recv_queue := xs\<rparr>) = (drain_heap ?q)\<lparr>recv_queue := xs @ ys\<rparr>"
    by blast
  have e: "?q\<lparr>recv_queue := xs @ [m]\<rparr> = q\<lparr>recv_queue := xs @ [m],
      remote_order_id := next_order (remote_order_id q)\<rparr>" for xs
    by (rule message_queue.equality) simp_all
  have step: "drain_heap (q\<lparr>recv_queue := xs @ [m],
      remote_order_id := next_order (remote_order_id q)\<rparr>) =
      (drain_heap ?q)\<lparr>recv_queue := xs @ m # ys\<rparr>" for xs
    using ys(2) [of "xs @ [m]", unfolded e] by simp
  have unfold: "receive_ordered_message m (q\<lparr>recv_queue := xs\<rparr>) =
      (drain_heap ?q)\<lparr>recv_queue := xs @ m # ys\<rparr>"
    "receive_ordered_message m q = drain_heap ?q" for xs
    using True by (simp_all add: receive_ordered_message_def step [of xs])
  from ys(1) show ?thesis unfolding unfold by (intro exI [of _ "m # ys"]) simp
next
  case False
  then show ?thesis
    by (intro exI [of _ "[]"]) (simp add: receive_ordered_message_def)
qed

subsection \<open>The receiver against the specification, beside other kinds\<close>

definition ordered_view :: "(nat \<Rightarrow> message) \<Rightarrow> message list \<Rightarrow> message_queue \<Rightarrow> nat list \<Rightarrow> bool" where
  "ordered_view msg taken q ns \<longleftrightarrow>
     of_kind Ordered (taken @ recv_queue q) = map msg [0..<delivered_count ns] \<and>
     remote_order_id q = order_no 0 (delivered_count ns) \<and>
     o_recv_heap q = map msg (sorted_list_of_set (early ns)) \<and>
     o_recv_set q = order_no 0 ` early ns"

lemma of_kind_map: "(\<And>n. m_kind (msg n) = k) \<Longrightarrow> of_kind k (map msg ns) = map msg ns"
  by (induction ns) simp_all

lemma ordered_view_arrival:
  assumes "ordered_view msg taken q ns" "numbered 0 msg" "in_window 0 (ns @ [n])"
  shows "ordered_view msg taken (receive_message (msg n) q) (ns @ [n])"
proof -
  let ?q = "arrived_state 0 msg (q\<lparr>recv_queue := []\<rparr>) ns"
  have q: "q = ?q\<lparr>recv_queue := recv_queue q\<rparr>"
    using assms(1) by (simp add: ordered_view_def arrived_state_def)
  have kind: "m_kind (msg i) = Ordered" for i using assms(2) by (simp add: numbered_def)
  have next_state: "receive_ordered_message (msg n) ?q =
      arrived_state 0 msg (q\<lparr>recv_queue := []\<rparr>) (ns @ [n])"
    using receive_arrival [OF assms(2,3)] kind by (simp add: receive_message_def)
  from receive_ordered_frame [of "msg n" ?q] obtain ys where ys:
    "map msg [0..<delivered_count (ns @ [n])] = map msg [0..<delivered_count ns] @ ys"
    "\<And>xs. receive_ordered_message (msg n) (?q\<lparr>recv_queue := xs\<rparr>) =
       (arrived_state 0 msg (q\<lparr>recv_queue := []\<rparr>) (ns @ [n]))\<lparr>recv_queue := xs @ ys\<rparr>"
    unfolding next_state by (auto simp: arrived_state_def)
  have "receive_message (msg n) q =
      (arrived_state 0 msg (q\<lparr>recv_queue := []\<rparr>) (ns @ [n]))\<lparr>recv_queue := recv_queue q @ ys\<rparr>"
    using ys(2) [of "recv_queue q"] kind unfolding q [symmetric] by (simp add: receive_message_def)
  moreover have "of_kind Ordered (taken @ recv_queue q @ ys) = map msg [0..<delivered_count (ns @ [n])]"
  proof -
    have "of_kind Ordered ys = ys"
    proof (rule filter_True)
      show "\<forall>x \<in> set ys. m_kind x = Ordered"
        using arg_cong [OF ys(1), of "\<lambda>ms. m_kind ` set ms"] kind by auto
    qed
    then show ?thesis using assms(1) ys(1) by (simp add: ordered_view_def)
  qed
  ultimately show ?thesis by (simp add: ordered_view_def arrived_state_def)
qed

lemma ordered_view_other:
  "ordered_view msg taken q ns \<Longrightarrow> m_kind m \<noteq> Ordered \<Longrightarrow> ordered_view msg taken (receive_message m q) ns"
  by (cases "m_kind m") (simp_all add: ordered_view_def receive_message_def)

definition order_numbers :: "message list \<Rightarrow> nat list" where
  "order_numbers ms = map (\<lambda>m. unat (m_order m)) (of_kind Ordered ms)"

lemma order_numbers_append [simp]: "order_numbers (ms @ ns) = order_numbers ms @ order_numbers ns"
  by (simp add: order_numbers_def)

lemma ordered_view_messages:
  assumes "numbered 0 msg" "\<And>m. m \<in> set ms \<Longrightarrow> m_kind m = Ordered \<Longrightarrow> \<exists>n < 2047. m = msg n"
    and "ordered_view msg taken q ns" "in_window 0 ns"
  shows "ordered_view msg taken (fold receive_message ms q) (ns @ order_numbers ms) \<and>
    in_window 0 (ns @ order_numbers ms)"
  using assms(2-)
proof (induction ms arbitrary: q ns)
  case Nil
  then show ?case by (simp add: order_numbers_def)
next
  case (Cons m ms)
  show ?case
  proof (cases "m_kind m = Ordered")
    case False
    then have "ordered_view msg taken (receive_message m q) ns"
      using Cons.prems(2) by (rule ordered_view_other [rotated])
    from Cons.IH [OF Cons.prems(1) this Cons.prems(3)] show ?thesis
      using False by (simp add: order_numbers_def)
  next
    case True
    with Cons.prems(1) [of m] obtain n where n: "n < 2047" "m = msg n" by auto
    then have w: "in_window 0 (ns @ [n])" using Cons.prems(3) by (simp add: in_window_def)
    have "unat (m_order m) = n" using n assms(1) by (simp add: numbered_def)
    then have "ns @ order_numbers (m # ms) = (ns @ [n]) @ order_numbers ms"
      using True by (simp add: order_numbers_def)
    moreover have "ordered_view msg taken (receive_message m q) (ns @ [n])"
      unfolding n(2) by (rule ordered_view_arrival [OF Cons.prems(2) assms(1) w])
    ultimately show ?thesis
      using Cons.IH [OF Cons.prems(1) _ w] by simp
  qed
qed

subsection \<open>The session\<close>

text \<open>
  \<open>net\<close> holds every packet the sender wrote, \<open>seen\<close> the packets handed to the receiver in their
  order, \<open>taken\<close> what the application took from the receiver, \<open>submitted\<close> the payloads of the
  ordered messages given to the sender.
\<close>

record session =
  sender :: message_queue
  receiver :: message_queue
  net :: "bytes list"
  seen :: "bytes list"
  taken :: "message list"
  submitted :: "bytes list"

definition session_start :: "config \<Rightarrow> session" where
  "session_start config =
     \<lparr>sender = mq_new config, receiver = mq_new config, net = [], seen = [], taken = [],
      submitted = []\<rparr>"

inductive session_step :: "session \<Rightarrow> session \<Rightarrow> bool" where
  submit:
    "length payload < 65536 \<Longrightarrow>
     session_step s (s\<lparr>sender := mq_send kind payload (sender s),
       submitted := submitted s @ (if kind = Ordered then [payload] else [])\<rparr>)"
| transmit:
    "mq_send_packet [] available (sender s) = Some (body, q') \<Longrightarrow>
     quotas_fit available (mq_config (sender s)) \<Longrightarrow>
     session_step s (s\<lparr>sender := q', net := net s @ [body]\<rparr>)"
| deliver:
    "body \<in> set (net s) \<Longrightarrow>
     session_step s (s\<lparr>receiver := mq_receive_packet body (receiver s), seen := seen s @ [body]\<rparr>)"
| lose:
    "body \<in> set (net s) \<Longrightarrow> session_step s (s\<lparr>sender := mq_lost_packet body (sender s)\<rparr>)"
| fetch:
    "session_step s (s\<lparr>receiver := (receiver s)\<lparr>recv_queue := []\<rparr>,
       taken := taken s @ recv_queue (receiver s)\<rparr>)"

inductive session_reachable :: "config \<Rightarrow> session \<Rightarrow> bool" for config where
  reach_start: "session_reachable config (session_start config)"
| reach_step: "session_reachable config s \<Longrightarrow> session_step s s' \<Longrightarrow> session_reachable config s'"

definition sent_message :: "bytes list \<Rightarrow> nat \<Rightarrow> message" where
  "sent_message payloads n =
     (let payload = if n < length payloads then payloads ! n else []
      in \<lparr>m_kind = Ordered, m_order = order_no 0 n, m_size = word_of_nat (length payload),
          m_data = payload\<rparr>)"

lemma sent_message_simps [simp]:
  "m_kind (sent_message ps n) = Ordered" "m_order (sent_message ps n) = order_no 0 n"
  "n < length ps \<Longrightarrow> m_data (sent_message ps n) = ps ! n"
  by (simp_all add: sent_message_def Let_def)

lemma sent_message_numbered: "numbered 0 (sent_message ps)"
  by (simp add: numbered_def)

lemma sent_message_append [simp]: "n < length ps \<Longrightarrow> sent_message (ps @ ps') n = sent_message ps n"
  by (simp add: sent_message_def nth_append)

definition arrived :: "session \<Rightarrow> nat list" where
  "arrived s = order_numbers (concat (map messages_from_packet (seen s)))"

text \<open>Packets are made of well-formed messages, and the ordered ones among them were submitted.\<close>

definition genuine :: "bytes list \<Rightarrow> message \<Rightarrow> bool" where
  "genuine ps m \<longleftrightarrow> wf_message m \<and>
     (m_kind m = Ordered \<longrightarrow> (\<exists>n < length ps. m = sent_message ps n))"

lemma genuine_append: "genuine ps m \<Longrightarrow> genuine (ps @ ps') m"
  unfolding genuine_def by (metis length_append sent_message_append trans_less_add1)

definition session_inv :: "session \<Rightarrow> bool" where
  "session_inv s \<longleftrightarrow>
     send_wf (sender s) \<and>
     local_order_id (sender s) = order_no 0 (length (submitted s)) \<and>
     (\<forall>m \<in> set (o_queue (sender s)). genuine (submitted s) m) \<and>
     (\<forall>body \<in> set (net s). \<forall>m \<in> set (messages_from_packet body). genuine (submitted s) m) \<and>
     set (seen s) \<subseteq> set (net s) \<and>
     (length (submitted s) \<le> 2047 \<longrightarrow>
        in_window 0 (arrived s) \<and>
        ordered_view (sent_message (submitted s)) (taken s) (receiver s) (arrived s))"

lemma arrived_append: "seen s' = seen s @ [body] \<Longrightarrow>
    arrived s' = arrived s @ order_numbers (messages_from_packet body)"
  by (simp add: arrived_def)

lemma session_inv_start: "session_inv (session_start config)"
  by (simp add: session_inv_def session_start_def send_wf_new mq_new_def send_wf_def kinds_ok_def
      arrived_def order_numbers_def in_window_def ordered_view_def early_def order_no_def)

lemma arrived_bound:
  assumes "session_inv s" "n \<in> set (arrived s)"
  shows "n < length (submitted s) \<or> 4096 \<le> length (submitted s)"
proof -
  from assms obtain m body where m: "body \<in> set (net s)" "m \<in> set (messages_from_packet body)"
    "m_kind m = Ordered" "n = unat (m_order m)"
    by (fastforce simp: arrived_def order_numbers_def session_inv_def)
  with assms(1) have "genuine (submitted s) m" by (auto simp: session_inv_def)
  with m(3) obtain i where "i < length (submitted s)" "m = sent_message (submitted s) i"
    by (auto simp: genuine_def)
  with m(4) show ?thesis by (cases "i < 4096") auto
qed

lemma ordered_view_cong:
  assumes "\<And>n. n \<in> set ns \<Longrightarrow> msg n = msg' n" "ordered_view msg got q ns"
  shows "ordered_view msg' got q ns"
proof -
  have "map msg [0..<delivered_count ns] = map msg' [0..<delivered_count ns]"
    using assms(1) delivered_count_arrived by (intro map_cong) auto
  moreover have "map msg (sorted_list_of_set (early ns)) = map msg' (sorted_list_of_set (early ns))"
    using assms(1) by (intro map_cong) (auto simp: early_def)
  ultimately show ?thesis using assms(2) by (simp add: ordered_view_def)
qed

lemma session_inv_submit:
  assumes "session_inv s" "length payload < 65536"
    "s' = s\<lparr>sender := mq_send kind payload (sender s),
       submitted := submitted s @ (if kind = Ordered then [payload] else [])\<rparr>"
  shows "session_inv s'"
proof -
  let ?new = "if kind = Ordered then [payload] else []"
  have fields: "submitted s' = submitted s @ ?new" "net s' = net s" "seen s' = seen s"
    "taken s' = taken s" "receiver s' = receiver s" "arrived s' = arrived s"
    by (simp_all add: assms(3) arrived_def)
  have "send_wf (sender s')"
    using send_wf_send [of "sender s" payload kind] assms by (simp add: session_inv_def)
  moreover have "local_order_id (sender s') = order_no 0 (length (submitted s'))"
    using assms(1) by (cases kind) (simp_all add: assms(3) session_inv_def mq_send_def Let_def next_order_no)
  moreover have "genuine (submitted s') m" if "m \<in> set (o_queue (sender s'))" for m
  proof (cases "m \<in> set (o_queue (sender s))")
    case True
    with assms(1) have "genuine (submitted s) m" by (auto simp: session_inv_def)
    then show ?thesis unfolding fields(1) by (rule genuine_append)
  next
    case False
    with that have k: "kind = Ordered" and
      m: "m = \<lparr>m_kind = Ordered, m_order = local_order_id (sender s),
          m_size = word_of_nat (length payload), m_data = payload\<rparr>"
      by (cases kind; auto simp: assms(3) mq_send_def Let_def)+
    have "m = sent_message (submitted s') (length (submitted s))"
      using k assms(1) by (simp add: m fields(1) sent_message_def session_inv_def)
    moreover have "wf_message m"
      using assms by (simp add: m wf_message_def unat_of_nat session_inv_def)
    ultimately show ?thesis using k by (auto simp: genuine_def fields(1))
  qed
  moreover have "genuine (submitted s') m"
    if "body \<in> set (net s')" "m \<in> set (messages_from_packet body)" for body m
    using assms(1) that by (auto simp: session_inv_def fields intro!: genuine_append)
  moreover have "in_window 0 (arrived s') \<and>
      ordered_view (sent_message (submitted s')) (taken s') (receiver s') (arrived s')"
    if N: "length (submitted s') \<le> 2047"
  proof -
    have "length (submitted s) \<le> 2047" using N by (simp add: fields(1) split: if_splits)
    with assms(1) have inv: "in_window 0 (arrived s)"
      "ordered_view (sent_message (submitted s)) (taken s) (receiver s) (arrived s)"
      by (simp_all add: session_inv_def)
    have "ordered_view (sent_message (submitted s')) (taken s) (receiver s) (arrived s)"
    proof (rule ordered_view_cong [OF _ inv(2)])
      fix n assume "n \<in> set (arrived s)"
      with arrived_bound [OF assms(1)] N have "n < length (submitted s)"
        by (fastforce simp: fields(1) split: if_splits)
      then show "sent_message (submitted s) n = sent_message (submitted s') n"
        unfolding fields(1) by simp
    qed
    with inv(1) show ?thesis by (simp add: fields)
  qed
  ultimately show ?thesis
    using assms(1) by (simp add: session_inv_def fields)
qed

lemma session_inv_transmit:
  assumes "session_inv s" "quotas_fit available (mq_config (sender s))"
    "mq_send_packet [] available (sender s) = Some (body, q')"
    "s' = s\<lparr>sender := q', net := net s @ [body]\<rparr>"
  shows "session_inv s'"
proof -
  have wf: "send_wf (sender s)" using assms(1) by (simp add: session_inv_def)
  obtain ms iq rq oq where m:
    "mq_send_packet [] available (sender s) =
       Some ([] @ concat (map serialize ms), (sender s)\<lparr>i_queue := iq, r_queue := rq, o_queue := oq\<rparr>)"
    "messages_from_packet (concat (map serialize ms)) = ms"
    "i_queue (sender s) = of_kind Instant ms @ iq" "r_queue (sender s) = of_kind Reliable ms @ rq"
    "o_queue (sender s) = of_kind Ordered ms @ oq"
    "\<And>m. m \<in> set ms \<union> set iq \<union> set rq \<union> set oq \<Longrightarrow> wf_message m"
    by (rule mq_send_packet_wf [OF wf assms(2), of "[]"]) blast
  have body: "body = concat (map serialize ms)"
    "q' = (sender s)\<lparr>i_queue := iq, r_queue := rq, o_queue := oq\<rparr>"
    using m(1) assms(3) by simp_all
  have old: "genuine (submitted s) m" if "m \<in> set (o_queue (sender s))" for m
    using that assms(1) by (auto simp: session_inv_def)
  have new: "genuine (submitted s) m" if "m \<in> set ms" for m
  proof (cases "m_kind m = Ordered")
    case True
    with that have "m \<in> set (o_queue (sender s))" unfolding m(5) by simp
    then show ?thesis by (rule old)
  qed (use that m(6) in \<open>auto simp: genuine_def\<close>)
  have rest: "genuine (submitted s) m" if "m \<in> set oq" for m
    by (rule old) (use that m(5) in simp)
  have "send_wf q'" by (rule send_wf_send_packet [OF wf assms(2,3)])
  with assms(1) new rest m(2) show ?thesis
    by (auto simp: session_inv_def assms(4) arrived_def body)
qed

lemma session_inv_deliver:
  assumes "session_inv s" "body \<in> set (net s)"
    "s' = s\<lparr>receiver := mq_receive_packet body (receiver s), seen := seen s @ [body]\<rparr>"
  shows "session_inv s'"
proof -
  have fields: "submitted s' = submitted s" "net s' = net s" "taken s' = taken s"
    "sender s' = sender s" "seen s' = seen s @ [body]"
    "receiver s' = fold receive_message (messages_from_packet body) (receiver s)"
    by (simp_all add: assms(3) mq_receive_packet_def)
  have arr: "arrived s' = arrived s @ order_numbers (messages_from_packet body)"
    by (rule arrived_append) (simp add: assms(3))
  have "ordered_view (sent_message (submitted s)) (taken s) (receiver s') (arrived s') \<and>
      in_window 0 (arrived s')" if N: "length (submitted s) \<le> 2047"
    unfolding arr fields
  proof (rule ordered_view_messages [OF sent_message_numbered])
    fix m assume "m \<in> set (messages_from_packet body)" "m_kind m = Ordered"
    with assms(1,2) N show "\<exists>n < 2047. m = sent_message (submitted s) n"
      unfolding session_inv_def genuine_def by (meson order_less_le_trans)
  qed (use assms(1) N in \<open>simp_all add: session_inv_def\<close>)
  with assms(1,2) show ?thesis by (simp add: session_inv_def fields)
qed

lemma session_inv_step: "session_step s s' \<Longrightarrow> session_inv s \<Longrightarrow> session_inv s'"
proof (induction rule: session_step.induct)
  case (lose body s)
  let ?ms = "messages_from_packet body"
  have gen: "genuine (submitted s) m" if "m \<in> set ?ms" for m
    using lose that by (auto simp: session_inv_def)
  then have "send_wf (mq_lost_packet body (sender s))"
    using lose.prems by (intro send_wf_lost_packet)
      (auto simp: session_inv_def genuine_def messages_from_packet_parse)
  with gen lose.prems show ?case
    by (auto simp: session_inv_def arrived_def mq_lost_packet_queues messages_from_packet_parse)
next
  case (fetch s)
  then show ?case
    by (auto simp: session_inv_def arrived_def ordered_view_def)
qed (blast intro: session_inv_submit session_inv_transmit session_inv_deliver)+

lemma session_reachable_inv: "session_reachable config s \<Longrightarrow> session_inv s"
  by (induction rule: session_reachable.induct) (auto intro: session_inv_start session_inv_step)

text \<open>What has been handed on is a prefix of what was submitted, as long as the arrivals allow.\<close>

lemma session_delivers:
  assumes "session_reachable config s" "length (submitted s) \<le> 2047"
  shows "map m_data (of_kind Ordered (taken s @ recv_queue (receiver s))) =
    take (delivered_count (arrived s)) (submitted s)"
proof -
  have inv: "session_inv s" using assms(1) by (rule session_reachable_inv)
  have "delivered_count (arrived s) \<le> length (submitted s)"
  proof (rule ccontr)
    assume "\<not> ?thesis"
    then have "length (submitted s) \<in> set (arrived s)" by (intro delivered_count_arrived) simp
    with arrived_bound [OF inv] assms(2) show False by fastforce
  qed
  then have "map (\<lambda>n. m_data (sent_message (submitted s) n)) [0..<delivered_count (arrived s)] =
      take (delivered_count (arrived s)) (submitted s)"
    by (intro nth_equalityI) simp_all
  with inv assms(2) show ?thesis by (simp add: session_inv_def ordered_view_def o_def)
qed

end
