(* ===== verification/Queue_Properties.thy ===== *)
theory Queue_Properties
  imports Queue_Session "HOL-Library.Sublist"
begin

text \<open>
  The properties of the message queue: what \<open>send_packet\<close> writes and keeps, what \<open>lost_packet\<close> gives
  back, and what the receiver hands on. Each rests on the lemmas of the sending, receiving and
  session theories; the examples after them are the same operations evaluated on concrete queues.
\<close>

subsection \<open>Vocabulary of the statements\<close>

text \<open>Every state of one queue under any calls with payloads below 64 KiB and any packets.\<close>

inductive queue_reachable :: "message_queue \<Rightarrow> bool" where
  q_new: "percent_quotas config \<Longrightarrow> queue_reachable (mq_new config)"
| q_set_config: "queue_reachable q \<Longrightarrow> percent_quotas config \<Longrightarrow> queue_reachable (mq_set_config config q)"
| q_send: "queue_reachable q \<Longrightarrow> length payload < 65536 \<Longrightarrow> queue_reachable (mq_send kind payload q)"
| q_send_packet:
    "queue_reachable q \<Longrightarrow> available < 2 ^ 22 \<Longrightarrow> mq_send_packet packet available q = Some (packet', q') \<Longrightarrow>
     queue_reachable q'"
| q_receive_packet: "queue_reachable q \<Longrightarrow> queue_reachable (mq_receive_packet packet q)"
| q_lost_packet:
    "queue_reachable q \<Longrightarrow> \<forall>m \<in> set (messages_from_packet packet). wf_message m \<Longrightarrow>
     queue_reachable (mq_lost_packet packet q)"
| q_dismiss: "queue_reachable q \<Longrightarrow> queue_reachable (mq_dismiss q)"
| q_received:
    "queue_reachable q \<Longrightarrow> queue_reachable (q\<lparr>recv_queue := snd (message_iterator_next (recv_queue q))\<rparr>)"
| q_reset: "queue_reachable q \<Longrightarrow> queue_reachable (mq_reset q)"

lemma mq_send_packet_config:
  "mq_send_packet packet available q = Some (packet', q') \<Longrightarrow> mq_config q' = mq_config q"
  by (auto simp: mq_send_packet_def bind_Some_iff)

lemma queue_reachable_inv:
  "queue_reachable q \<Longrightarrow> send_wf q \<and> recv_wf q \<and> percent_quotas (mq_config q)"
proof (induction rule: queue_reachable.induct)
  case (q_send q payload kind)
  then show ?case
    by (cases kind) (simp_all add: send_wf_send recv_wf_send, simp_all add: mq_send_def Let_def)
next
  case (q_send_packet q available packet packet' q')
  then show ?case
    using send_wf_send_packet percent_quotas_fit recv_wf_send_packet mq_send_packet_config by metis
next
  case (q_receive_packet q packet)
  then show ?case by (simp add: recv_wf_receive_packet send_wf_receive_packet)
next
  case (q_lost_packet q packet)
  then show ?case
    by (simp add: recv_wf_lost_packet send_wf_lost_packet messages_from_packet_parse)
      (simp add: mq_lost_packet_queues)
qed (simp_all add: send_wf_new recv_wf_new send_wf_reset recv_wf_reset mq_set_config_def mq_dismiss_def,
    simp_all add: mq_new_def mq_reset_def send_wf_def recv_wf_def)

text \<open>The packet written on a reachable queue, and the queue after it.\<close>

lemma reachable_packet:
  assumes "queue_reachable q" "available < 2 ^ 22"
  obtains ms q' where
    "mq_send_packet packet available q = Some (packet @ concat (map serialize ms), q')"
    "messages_from_packet (concat (map serialize ms)) = ms"
    "i_queue q = of_kind Instant ms @ i_queue q'" "r_queue q = of_kind Reliable ms @ r_queue q'"
    "o_queue q = of_kind Ordered ms @ o_queue q'"
    "q' = q\<lparr>i_queue := i_queue q', r_queue := r_queue q', o_queue := o_queue q'\<rparr>"
    "length (concat (map serialize ms)) \<le> available"
    "\<And>m. m \<in> set ms \<union> set (i_queue q') \<union> set (r_queue q') \<union> set (o_queue q') \<Longrightarrow> wf_message m"
    "\<And>queue. queue \<in> {i_queue q', r_queue q', o_queue q'} \<Longrightarrow>
       blocked available (length (concat (map serialize ms))) queue"
proof -
  have "send_wf q" "quotas_fit available (mq_config q)"
    using queue_reachable_inv [OF assms(1)] assms(2) percent_quotas_fit by auto
  then show thesis
  proof (rule mq_send_packet_wf [of _ _ packet], goal_cases)
    case (1 ms iq rq oq)
    then show ?case
      by (intro that [of ms "q\<lparr>i_queue := iq, r_queue := rq, o_queue := oq\<rparr>"]) auto
  qed
qed

text \<open>Evaluation of the sending side on concrete queues.\<close>

lemmas queue_eval =
  mq_send_packet_def mq_send_def mq_new_def quota_space_def Let_def f32_of_nat_small write_messages_def
  write_messages_loop.simps write_message_def MESSAGE_HEADER_BYTES_def f32_to_usize_def checked_sub_def
  fill_loop.simps fill_round_def

definition one_reliable :: "bytes \<Rightarrow> message_queue" where
  "one_reliable payload = mq_send Reliable payload (mq_new default_config)"

lemma one_reliable_reachable: "length payload < 65536 \<Longrightarrow> queue_reachable (one_reliable payload)"
  by (simp add: one_reliable_def q_send q_new)

lemma one_reliable_packets:
  "mq_send_packet [] 100 (one_reliable [1, 2]) =
     Some ([1, 0, 0, 2, 1, 2], mq_new default_config)"
  "mq_send_packet [] 100 (one_reliable (replicate 97 7)) = Some ([], one_reliable (replicate 97 7))"
  by (simp_all add: queue_eval one_reliable_def serialize_def message_header_def header_byte0_def)

subsection \<open>Sending\<close>

text \<open>C6: On every reachable queue \<open>send_packet\<close> returns: with quotas of at most 100 percent no budget
  subtraction underflows. It appends at most \<open>available\<close> bytes to the packet; the messages the
  receiver parses from them, taken by kind, followed by what is still queued are exactly the three
  queues as they were, in their order; and nothing else of the queue changes.\<close>

theorem send_packet_conserves:
  assumes "queue_reachable q" "available < 2 ^ 22"
  shows "\<exists>body q'. mq_send_packet packet available q = Some (packet @ body, q') \<and>
    length body \<le> available \<and>
    of_kind Instant (messages_from_packet body) @ i_queue q' = i_queue q \<and>
    of_kind Reliable (messages_from_packet body) @ r_queue q' = r_queue q \<and>
    of_kind Ordered (messages_from_packet body) @ o_queue q' = o_queue q \<and>
    q' = q\<lparr>i_queue := i_queue q', r_queue := r_queue q', o_queue := o_queue q'\<rparr>"
proof (rule reachable_packet [OF assms, of packet])
  fix ms q'
  assume m: "mq_send_packet packet available q = Some (packet @ concat (map serialize ms), q')"
    "messages_from_packet (concat (map serialize ms)) = ms"
    "i_queue q = of_kind Instant ms @ i_queue q'" "r_queue q = of_kind Reliable ms @ r_queue q'"
    "o_queue q = of_kind Ordered ms @ o_queue q'"
    "q' = q\<lparr>i_queue := i_queue q', r_queue := r_queue q', o_queue := o_queue q'\<rparr>"
    "length (concat (map serialize ms)) \<le> available"
  show ?thesis
    by (intro exI conjI, rule m(1), rule m(7), unfold m(2))
      (rule m(3) [symmetric] m(4) [symmetric] m(5) [symmetric] m(6))+
qed

theorem send_packet_conserves_witness:
  "\<exists>body q'. mq_send_packet [9] 100 (one_reliable [1, 2]) = Some ([9] @ body, q') \<and> length body \<le> 100 \<and>
    of_kind Reliable (messages_from_packet body) @ r_queue q' =
      [\<lparr>m_kind = Reliable, m_order = 0, m_size = 2, m_data = [1, 2]\<rparr>]"
proof -
  have "r_queue (one_reliable [1, 2]) = [\<lparr>m_kind = Reliable, m_order = 0, m_size = 2, m_data = [1, 2]\<rparr>]"
    by (simp add: one_reliable_def mq_send_def mq_new_def)
  then show ?thesis
    using send_packet_conserves [of "one_reliable [1, 2]" 100 "[9]"] one_reliable_reachable [of "[1, 2]"]
    by fastforce
qed

text \<open>C26: The packet is filled greedily: when \<open>send_packet\<close> is done, no queue has a front message that
  would still fit into the bytes left over.\<close>

theorem send_packet_fills:
  assumes "queue_reachable q" "available < 2 ^ 22"
    and "mq_send_packet packet available q = Some (packet', q')"
    and "queue \<in> {i_queue q', r_queue q', o_queue q'}" "queue \<noteq> []"
  shows "length packet' + length (serialize (hd queue)) > length packet + available"
proof (rule reachable_packet [OF assms(1,2), of packet])
  fix ms t
  assume "mq_send_packet packet available q = Some (packet @ concat (map serialize ms), t)"
    and wf: "\<And>m. m \<in> set ms \<union> set (i_queue t) \<union> set (r_queue t) \<union> set (o_queue t) \<Longrightarrow> wf_message m"
    and b: "\<And>queue. queue \<in> {i_queue t, r_queue t, o_queue t} \<Longrightarrow>
       blocked available (length (concat (map serialize ms))) queue"
  with assms(3) have p: "packet' = packet @ concat (map serialize ms)" "t = q'" by simp_all
  from assms(4,5) have "wf_message (hd queue)"
    by (intro wf) (auto simp: p(2))
  moreover have "blocked available (length (concat (map serialize ms))) queue"
    using assms(4) unfolding p(2) [symmetric] by (rule b)
  then have "available < length (concat (map serialize ms)) + wire_cost (hd queue)"
    using assms(5) by (cases queue) (simp_all add: blocked_def)
  ultimately show ?thesis by (simp add: p(1) wire_cost_wf)
qed

theorem send_packet_fills_witness:
  "length ([] :: bytes) + length (serialize (hd (r_queue (one_reliable (replicate 97 7))))) >
    length ([] :: bytes) + 100"
  by (rule send_packet_fills [OF one_reliable_reachable _ one_reliable_packets(2)])
    (simp_all add: one_reliable_def mq_send_def Let_def)

text \<open>C13: When the packet just written is reported lost, every reliable and ordered message it took is
  back in its queue, none is duplicated, and only instant messages are gone.\<close>

theorem lost_packet_restores:
  assumes "queue_reachable q" "available < 2 ^ 22"
    and "mq_send_packet [] available q = Some (body, q')"
  shows "mset (r_queue (mq_lost_packet body q')) = mset (r_queue q) \<and>
    mset (o_queue (mq_lost_packet body q')) = mset (o_queue q) \<and>
    suffix (i_queue (mq_lost_packet body q')) (i_queue q)"
proof (rule reachable_packet [OF assms(1,2), of "[]"])
  fix ms t
  assume "mq_send_packet [] available q = Some ([] @ concat (map serialize ms), t)"
    and parse: "messages_from_packet (concat (map serialize ms)) = ms"
    and queues: "i_queue q = of_kind Instant ms @ i_queue t" "r_queue q = of_kind Reliable ms @ r_queue t"
      "o_queue q = of_kind Ordered ms @ o_queue t"
  with assms(3) have "body = concat (map serialize ms)" "t = q'" by simp_all
  with parse queues show ?thesis
    by (simp add: mq_lost_packet_queues suffix_def flip: messages_from_packet_parse)
qed

theorem lost_packet_restores_witness:
  "mset (r_queue (mq_lost_packet [1, 0, 0, 2, 1, 2] (mq_new default_config))) =
     mset (r_queue (one_reliable [1, 2]))"
  using lost_packet_restores [OF one_reliable_reachable _ one_reliable_packets(1)] by simp

text \<open>Quotas are not validated: with 80 percent for instant and 80 percent for reliable messages
  the first phase writes more than is available, and the second phase's \<open>available - *written\<close>
  underflows.\<close>

definition oversubscribed :: config where
  "oversubscribed = default_config\<lparr>message_quota_instant := Fin 80, message_quota_reliable := Fin 80\<rparr>"

lemma oversubscribed_quotas_panic:
  "mq_send_packet [] 100
     (mq_send Reliable (replicate 76 7) (mq_send Instant (replicate 40 9) (mq_send Instant (replicate 76 9)
       (mq_new oversubscribed)))) = None"
  by (simp add: queue_eval oversubscribed_def)

subsection \<open>Receiving\<close>

text \<open>C1: In a session of at most 2047 ordered messages, over a network that reorders, repeats and loses packets,
  the ordered messages that the receiving application has taken or can take are a prefix of the payloads the
  sender submitted, each once and in order; its length is the least message number that has not arrived
  yet. The bound is half of the 4096 order ids, less one. Beyond it this is not true of the code: the ids
  wrap around, so that an old packet that is repeated late is handed on again, and messages that are early
  across the wrap stall the stream (\<open>early_across_wrap_stalls\<close>).\<close>

theorem ordered_delivery:
  assumes "session_reachable config s" "length (submitted s) \<le> 2047"
  shows "map m_data (of_kind Ordered (taken s @ recv_queue (receiver s))) =
    take (delivered_count (arrived s)) (submitted s)"
  using assms by (rule session_delivers)

definition one_ordered :: session where
  "one_ordered = (session_start default_config)
     \<lparr>sender := (mq_new default_config)\<lparr>local_order_id := 1\<rparr>,
      receiver := mq_receive_packet [2, 0, 0, 1, 7] (mq_new default_config),
      net := [[2, 0, 0, 1, 7]], seen := [[2, 0, 0, 1, 7]], submitted := [[7]]\<rparr>"

lemma one_ordered_reachable: "session_reachable default_config one_ordered"
proof -
  let ?s0 = "session_start default_config"
  let ?s1 = "?s0\<lparr>sender := mq_send Ordered [7] (mq_new default_config), submitted := [[7]]\<rparr>"
  let ?s2 = "?s1\<lparr>sender := (mq_new default_config)\<lparr>local_order_id := 1\<rparr>, net := [[2, 0, 0, 1, 7]]\<rparr>"
  have "session_step ?s0 ?s1"
    using submit [of "[7]" ?s0 Ordered] by (simp add: session_start_def)
  moreover have "mq_send_packet [] 100 (sender ?s1) =
      Some ([2, 0, 0, 1, 7], (mq_new default_config)\<lparr>local_order_id := 1\<rparr>)"
    by (simp add: queue_eval serialize_def message_header_def header_byte0_def next_order_def MAX_ORDER_ID_def)
  then have "session_step ?s1 (?s1\<lparr>sender := (mq_new default_config)\<lparr>local_order_id := 1\<rparr>,
      net := net ?s1 @ [[2, 0, 0, 1, 7]]\<rparr>)"
    by (rule transmit) (simp add: percent_quotas_fit mq_send_def mq_new_def)
  then have "session_step ?s1 ?s2" by (simp add: session_start_def)
  moreover have "session_step ?s2 one_ordered"
    using deliver [of "[2, 0, 0, 1, 7]" ?s2] by (simp add: one_ordered_def session_start_def)
  ultimately show ?thesis by (blast intro: reach_start reach_step)
qed

theorem ordered_delivery_witness:
  "map m_data (of_kind Ordered (taken one_ordered @ recv_queue (receiver one_ordered))) = [[7]]"
proof -
  have "messages_from_packet [2, 0, 0, 1, 7] =
      [\<lparr>m_kind = Ordered, m_order = 0, m_size = 1, m_data = [7]\<rparr>]"
    by (simp add: messages_from_packet_parse kind_of_nibble_def header_order_def header_size_def Let_def)
  then have "arrived one_ordered = [0]"
    by (simp add: arrived_def one_ordered_def order_numbers_def)
  moreover have "delivered_count [0] = 1" by (simp add: delivered_count_def)
  ultimately show ?thesis
    using ordered_delivery [OF one_ordered_reachable] by (simp add: one_ordered_def)
qed

text \<open>C27: A stream that arrives in order is handed on in full for ever, across every wrap-around of
  the 12 bit order id.\<close>

theorem in_order_stream:
  "fold receive_message (map (sent_message payloads) [0..<n]) (mq_new config) =
     (mq_new config)\<lparr>recv_queue := map (sent_message payloads) [0..<n], remote_order_id := order_no 0 n\<rparr>"
  using receive_in_order [OF sent_message_numbered, of "mq_new config" 0 payloads n]
  by (simp add: mq_new_def order_no_def)

text \<open>C30: The heap orders early messages by raw order id, so messages early across the wrap-around are
  sorted before the ones they follow. When the order ids 0 and 4095 are early and 4094 arrives, 4095 is
  the next expected and present, but not handed on; and no arrival with another order id ever releases
  it.\<close>

theorem early_across_wrap_stalls:
  assumes "\<forall>m \<in> set later. m_kind m = Ordered \<and> m_order m \<noteq> 4095"
  shows "recv_queue (fold receive_message
      (map (sent_message payloads) ([0..<4094] @ [4096, 4095, 4094]) @ later) (mq_new config)) =
    map (sent_message payloads) [0..<4095]"
proof -
  let ?m = "sent_message payloads"
  let ?q = "(mq_new config)\<lparr>recv_queue := map ?m [0..<4094], remote_order_id := order_no 0 4094\<rparr>"
  have no: "order_no 0 4094 = 4094" "order_no 0 4095 = 4095" "order_no 0 4096 = 0"
    by (simp_all add: order_no_def)
  have next_order: "next_order 4094 = 4095" by (simp add: next_order_def MAX_ORDER_ID_def)
  have "fold receive_message (map ?m [0..<4094]) (mq_new config) = ?q"
    using receive_in_order [OF sent_message_numbered, of "mq_new config" 0 payloads 4094]
    by (simp add: mq_new_def order_no_def)
  moreover have "fold receive_message (map ?m [4096, 4095, 4094]) ?q =
      ?q\<lparr>recv_queue := map ?m [0..<4094] @ [?m 4094], remote_order_id := 4095,
         o_recv_heap := [?m 4096, ?m 4095], o_recv_set := {4095, 0}\<rparr>" (is "_ = ?stalled")
    by (simp add: receive_message_def receive_ordered_message_def mq_new_def no next_order
        order_is_more_recent_def MAX_ORDER_ID_def heap_push_def heap_peek_def drain_heap.simps)
  moreover have "recv_queue (fold receive_message later ?stalled) = recv_queue ?stalled"
    using assms by (intro receive_without_expected) simp
  moreover have "map ?m [0..<4095] = map ?m [0..<4094] @ [?m 4094]"
    using upt_Suc_append [of 0 4094] by simp
  ultimately show ?thesis by simp
qed

theorem early_across_wrap_stalls_witness:
  "recv_queue (fold receive_message
      (map (sent_message []) ([0..<4094] @ [4096, 4095, 4094]) @ [sent_message [] 4097]) (mq_new default_config)) =
    map (sent_message []) [0..<4095]"
  by (rule early_across_wrap_stalls) (simp add: order_no_def)

text \<open>C28: Whatever bytes arrive, and whatever the application does, the receiver buffers at most 4096
  early messages, sorted by order id and without duplicates, and the duplicate set mirrors them.\<close>

theorem early_buffer_bounded:
  assumes "queue_reachable q"
  shows "length (o_recv_heap q) \<le> 4096 \<and> sorted_wrt (<) (map m_order (o_recv_heap q)) \<and>
    o_recv_set q = m_order ` set (o_recv_heap q) \<and> unat (remote_order_id q) < 4096"
proof -
  have "recv_wf q" using queue_reachable_inv [OF assms] by simp
  then show ?thesis
    using recv_wf_buffer_bound(1) [of q]
    by (simp add: recv_wf_def heap_invar_def strict_sorted_iff)
qed

theorem early_buffer_bounded_witness:
  "sorted_wrt (<) (map m_order (o_recv_heap (mq_receive_packet [2, 2, 0, 0, 2, 1, 0, 0] (mq_new default_config))))"
  using early_buffer_bounded [OF q_receive_packet [OF q_new [OF percent_quotas_default]]] by blast

text \<open>Parsing arbitrary bytes ends, and the messages it gives never hold more bytes than the
  packet has; each has a 12 bit order id and at most the payload its size field announces.\<close>

lemma parsed_messages_bounded:
  "(\<Sum>m\<leftarrow>messages_from_packet packet. length (serialize m)) \<le> length packet \<and>
   (\<forall>m. m \<in> set (messages_from_packet packet) \<longrightarrow>
      unat (m_order m) < 4096 \<and> length (m_data m) \<le> unat (m_size m))"
  using parse_fields parse_total_length by (simp add: messages_from_packet_parse)

end
