(* ===== verification/Connection_Properties.thy ===== *)
theory Connection_Properties
  imports Connection_Delivery Queue_Properties
begin

text \<open>
  The properties of a connection. Each rests on the lemmas of the acknowledgment, invariant and state
  theories; \<open>conn_reachable\<close> ranges over every use of a connection, with any packets from the network,
  any socket and any clock. The examples instantiate the parameters with the library's own
  \<open>BinaryRateLimiter\<close>, \<open>NoopPacketModifier\<close> and \<open>UdpSocket\<close>.
\<close>

subsection \<open>Example connections\<close>

definition any_addr :: socket_addr where
  "any_addr = V4 (127, 0, 0, 1) 1234"

definition fresh_connection :: "config \<Rightarrow> u32 \<Rightarrow> (binary_rate_limiter, noop_packet_modifier) connection" where
  "fresh_connection config i =
     fst (connection_new config any_addr any_addr (fst (binary_new config (\<lambda>_. 0))) NoopPacketModifier i (\<lambda>_. 0))"

definition fresh_socket :: udp_socket where
  "fresh_socket = \<lparr>us_socket = \<lparr>ns_addr = Inr any_addr, inbound = silence, outbound = [], send_faults = []\<rparr>,
     us_buffer = replicate 1400 0\<rparr>"

lemma fresh_reachable:
  "valid_settings config \<Longrightarrow> binary_valid config \<Longrightarrow>
   conn_reachable binary_limiter noop_modifier S binary_valid (fresh_connection config i)"
  using cr_new [of config binary_valid binary_limiter noop_modifier S any_addr any_addr "\<lambda>_. 0" i "\<lambda>_. 0"]
  by (simp add: fresh_connection_def binary_limiter_simps noop_modifier_def noop_new_def)

lemma binary_valid_default [simp]: "binary_valid default_config"
  by (simp add: binary_valid_def)

lemmas fresh_default = fresh_reachable [OF valid_settings_default binary_valid_default]

lemma fresh_fields [simp]:
  "cn_state (fresh_connection config i) = Connecting" "cn_config (fresh_connection config i) = config"
  "remote_seq_number (fresh_connection config i) = 0" "local_seq_number (fresh_connection config i) = 0"
  "recv_ack_queue (fresh_connection config i) = []" "sent_ack_queue (fresh_connection config i) = []"
  "cn_queue (fresh_connection config i) = mq_new config" "cn_events (fresh_connection config i) = []"
  "last_receive_time (fresh_connection config i) = 0" "random_id (fresh_connection config i) = ConnectionID i"
  "cn_modifier (fresh_connection config i) = NoopPacketModifier"
  by (simp_all add: fresh_connection_def connection_new_def)

lemma noop_hooks [simp]:
  "pm_outgoing noop_modifier payload m = (None, m)" "pm_incoming noop_modifier payload m = (None, m)"
  by (simp_all add: noop_modifier_def default_outgoing_def default_incoming_def)

definition established :: "u32 \<Rightarrow> u32 list \<Rightarrow> (binary_rate_limiter, noop_packet_modifier) connection" where
  "established remote received = (fresh_connection default_config 7)
     \<lparr>cn_state := Connected, remote_seq_number := remote, recv_ack_queue := received\<rparr>"

lemma established_fields [simp]:
  "cn_state (established remote received) = Connected" "cn_config (established remote received) = default_config"
  "remote_seq_number (established remote received) = remote" "local_seq_number (established remote received) = 0"
  "recv_ack_queue (established remote received) = received" "sent_ack_queue (established remote received) = []"
  "cn_queue (established remote received) = mq_new default_config" "cn_events (established remote received) = []"
  by (simp_all add: established_def)

lemma established_invar:
  "unat remote < 256 \<Longrightarrow> \<forall>seq \<in> set received. unat seq < 256 \<Longrightarrow> length received \<le> 32 \<Longrightarrow>
   conn_invar (\<lambda>_. True) (established remote received)"
  by (simp add: conn_invar_def mq_new_def)

text \<open>An established connection with one packet pending, sent at time 0, with a reliable message in it.\<close>

definition pending_packet :: "u32 \<Rightarrow> sent_packet_ack" where
  "pending_packet seq = \<lparr>sp_seq = seq, sp_time = 0, sp_state = Unknown,
     sp_packet = Some ([1, 2, 3, 4, 0, 0, 0, 7, 0, 0, 0, 0, 0, 0] @ [1, 0, 0, 2, 8, 9])\<rparr>"

definition awaiting :: "u32 \<Rightarrow> (binary_rate_limiter, noop_packet_modifier) connection" where
  "awaiting seq = (established 0 [])\<lparr>sent_ack_queue := [pending_packet seq]\<rparr>"

lemma awaiting_fields [simp]:
  "cn_state (awaiting seq) = Connected" "cn_config (awaiting seq) = default_config"
  "remote_seq_number (awaiting seq) = 0" "recv_ack_queue (awaiting seq) = []"
  "sent_ack_queue (awaiting seq) = [pending_packet seq]" "cn_queue (awaiting seq) = mq_new default_config"
  "cn_events (awaiting seq) = []" "cn_modifier (awaiting seq) = NoopPacketModifier"
  by (simp_all add: awaiting_def established_def)

lemma awaiting_invar: "unat seq < 256 \<Longrightarrow> conn_invar (\<lambda>_. True) (awaiting seq)"
  by (simp add: conn_invar_def pending_ok_def pending_packet_def mq_new_def PACKET_HEADER_SIZE_def awaiting_def)

subsection \<open>Safety of every operation\<close>

text \<open>C3: No bytes from the network and no use of the API make a connection with valid settings panic:
  in every reachable state, receiving any packet and sending return. In particular no subtraction of
  sequence numbers or budgets underflows and no slice is out of range.\<close>

theorem connection_never_panics:
  assumes "conn_reachable binary_limiter M S binary_valid c"
  shows "(\<exists>accepted c' clk'. receive_packet M packet clk c = Some (accepted, c', clk')) \<and>
    (\<exists>n c' s' clk'. send_packet binary_limiter M S addr clk c s = Some (n, c', s', clk'))"
proof -
  note invar = binary_conn_invar [OF assms]
  show ?thesis
    by (rule receive_packet_invar [OF invar, of M packet clk],
        rule binary_send_packet_invar [OF invar, of M S addr clk s]) blast
qed

theorem connection_never_panics_witness:
  "\<exists>accepted c' clk'. receive_packet noop_modifier [1, 2, 3, 4, 0, 0, 0, 7, 255, 255, 255, 255, 255, 255]
     (\<lambda>_. 5) (fresh_connection default_config 7) = Some (accepted, c', clk')"
  using connection_never_panics [OF fresh_default [of "udp_ops idle_os"]] by blast

text \<open>C16: In every reachable state both sequence numbers and all remembered ones are below 256, at most
  32 received numbers are remembered, one for each bit of the ack field, and the packets pending
  acknowledgment have distinct sequence numbers, so there are at most 256 of them.\<close>

theorem connection_stays_bounded:
  assumes "conn_reachable binary_limiter M S binary_valid c"
  shows "unat (remote_seq_number c) < 256 \<and> unat (local_seq_number c) < 256 \<and>
    length (recv_ack_queue c) \<le> 32 \<and> length (sent_ack_queue c) \<le> 256 \<and>
    distinct (map sp_seq (sent_ack_queue c)) \<and> list_all pending_ok (sent_ack_queue c)"
proof -
  note h = binary_conn_invar [OF assms, unfolded conn_invar_def]
  have "distinct (map (unat \<circ> sp_seq) (sent_ack_queue c))"
    using h by (auto simp: distinct_map inj_on_def word_unat_eq_iff)
  then have "length (sent_ack_queue c) = card (set (map (unat \<circ> sp_seq) (sent_ack_queue c)))"
    by (metis distinct_card length_map)
  also have "\<dots> \<le> card {..<256 :: nat}"
    using h by (intro card_mono) (auto simp: pending_ok_def)
  finally show ?thesis using h by (simp add: list_all_iff)
qed

theorem connection_stays_bounded_witness:
  "length (sent_ack_queue (fresh_connection default_config 7)) \<le> 256 \<and>
   distinct (map sp_seq (sent_ack_queue (fresh_connection default_config 7)))"
  using connection_stays_bounded [OF fresh_default [of "udp_ops idle_os" 7]] by blast

subsection \<open>The header and the acknowledgments\<close>



text \<open>C4: The exact account of an accepted packet. Every pending packet is either acknowledged by the two ack
  fields, or overdue and lost, or stays pending. For each lost packet, in order, there is one event and
  its messages are queued again; then the messages of the packet are taken. The packet's own sequence
  number becomes the latest of at most 32 remembered ones.\<close>

theorem accepted_packet_account:
  assumes "conn_invar ok c" "14 \<le> length packet"
    and "fst (update_receive_state packet c)"
    and "pm_incoming M (drop 14 packet) (cn_modifier c) = (replacement, modifier)"
    and "overdue = (\<lambda>p. clk 0 - sp_time p > packet_drop_threshold (cn_config c))"
    and "acked = (\<lambda>p. seq_was_acked (sp_seq p) (ack_of packet) (bitfield_of packet) = Some True)"
    and "lost = map (\<lambda>p. drop 14 (the (sp_packet p))) (filter (\<lambda>p. \<not> acked p \<and> overdue p) (sent_ack_queue c))"
  shows "\<exists>c'. receive_packet M packet clk c = Some (True, c', clock_skip 1 clk) \<and>
    sent_ack_queue c' = filter (\<lambda>p. \<not> acked p \<and> \<not> overdue p) (sent_ack_queue c) \<and>
    cn_events c' = cn_events (snd (update_receive_state packet c)) @ map PacketLost_Event lost \<and>
    cn_queue c' = mq_receive_packet (payload_after replacement (drop 14 packet))
      (fold mq_lost_packet lost (cn_queue c)) \<and>
    recv_ack_queue c' = take 32 (ucast (packet ! 8) # recv_ack_queue c) \<and>
    remote_seq_number c' = ucast (packet ! 8) \<and> last_receive_time c' = clk 0"
proof -
  obtain b c1 where u: "update_receive_state packet c = (b, c1)" by force
  have "timed_out (stamped packet clk c) = overdue" "is_acked (ack_of packet) (bitfield_of packet) = acked"
    using update_receive_state_fields(1) [OF u]
    by (simp_all add: assms(5,6) timed_out_def stamped_def is_acked_def fun_eq_iff u)
  then have lost: "lost = lost_payloads (ack_of packet) (bitfield_of packet) (stamped packet clk c) (sent_ack_queue c)"
    and e: "timed_out (stamped packet clk c) = overdue" "is_acked (ack_of packet) (bitfield_of packet) = acked"
    by (simp_all add: assms(7) lost_payloads_def PACKET_HEADER_SIZE_def)
  have len: "PACKET_HEADER_SIZE \<le> length packet" using assms(2) by (simp add: PACKET_HEADER_SIZE_def)
  show ?thesis
    by (rule receive_packet_accepted [OF assms(1) len assms(3) assms(4) [folded PACKET_HEADER_SIZE_def] lost])
      (simp add: e PACKET_HEADER_SIZE_def del: take_Cons_numeral)
qed

theorem accepted_packet_account_witness:
  "\<exists>c'. receive_packet noop_modifier [1, 2, 3, 4, 0, 0, 0, 7, 1, 0, 0, 0, 0, 0] (\<lambda>_. 2000000000) (awaiting 5) =
      Some (True, c', clock_skip 1 (\<lambda>_. 2000000000)) \<and>
    sent_ack_queue c' = [] \<and> cn_events c' = [PacketLost_Event [1, 0, 0, 2, 8, 9]]"
proof -
  have u: "update_receive_state [1, 2, 3, 4, 0, 0, 0, 7, 1, 0, 0, 0, 0, 0] (awaiting 5) = (True, awaiting 5)"
    by (simp add: update_receive_state_def CLOSURE_PACKET_DATA_def seq_is_more_recent_def MAX_SEQ_NUMBER_def)
  have "seq_was_acked 5 0 0 = Some False"
    by (simp add: seq_was_acked_def seq_bit_index_def checked_sub_u32_def checked_add_u32_def MAX_SEQ_NUMBER_def
        MAX_ACK_BITS_def)
  then show ?thesis
    using accepted_packet_account [OF awaiting_invar _ _ _ refl refl refl,
        of 5 "[1, 2, 3, 4, 0, 0, 0, 7, 1, 0, 0, 0, 0, 0]" noop_modifier None NoopPacketModifier "\<lambda>_. 2000000000"]
    by (auto simp: u pending_packet_def ack_of_def bitfield_of_def u32_of_bytes_def)
qed

subsection \<open>The state machine\<close>

text \<open>
  A connection in use, by client, server or application: it receives and sends in any order, queues messages,
  gets another configuration, id or address, is closed or reset, and has its events drained now and then.
  \<open>ts\<close> is its life, the events in the order in which they were announced and the calls of \<open>close\<close> and \<open>reset\<close>
  among them; \<open>es\<close> are the events that were drained.
\<close>

definition news :: "connection_event list \<Rightarrow> connection_event list \<Rightarrow> life_step list" where
  "news before after = map Announced (drop (length before) after)"

inductive driven ::
  "'r rate_limiter \<Rightarrow> 'm packet_modifier \<Rightarrow> 's socket \<Rightarrow> ('r, 'm) connection \<Rightarrow> life_step list \<Rightarrow>
     connection_event list \<Rightarrow> ('r, 'm) connection \<Rightarrow> bool"
  for R :: "'r rate_limiter" and M :: "'m packet_modifier" and S :: "'s socket" and c :: "('r, 'm) connection"
where
  d_start: "driven R M S c [] [] c"
| d_receive:
    "driven R M S c ts es c1 \<Longrightarrow> receive_packet M packet clk c1 = Some (accepted, c2, clk') \<Longrightarrow>
     driven R M S c (ts @ news (cn_events c1) (cn_events c2)) es c2"
| d_send_packet:
    "driven R M S c ts es c1 \<Longrightarrow> send_packet R M S addr clk c1 s = Some (n, c2, s', clk') \<Longrightarrow>
     driven R M S c (ts @ news (cn_events c1) (cn_events c2)) es c2"
| d_events:
    "driven R M S c ts es c1 \<Longrightarrow> connection_events c1 = (es', c2) \<Longrightarrow>
     driven R M S c (ts @ news (cn_events c1) es') (es @ es') c2"
| d_send: "driven R M S c ts es c1 \<Longrightarrow> driven R M S c ts es (connection_send kind payload c1)"
| d_config:
    "driven R M S c ts es c1 \<Longrightarrow> valid_settings config \<Longrightarrow> driven R M S c ts es (connection_set_config config c1)"
| d_id: "driven R M S c ts es c1 \<Longrightarrow> driven R M S c ts es (set_id i c1)"
| d_peer: "driven R M S c ts es c1 \<Longrightarrow> driven R M S c ts es (set_peer_addr addr c1)"
| d_close: "driven R M S c ts es c1 \<Longrightarrow> driven R M S c (ts @ [Close_Called]) es (connection_close c1)"
| d_reset: "driven R M S c ts es c1 \<Longrightarrow> driven R M S c (ts @ [Reset_Called]) es (fst (connection_reset R clk c1))"

lemma run_events_messages [simp]: "run_events s (map Message_Event payloads) = Some s"
  by (induction payloads) simp_all

text \<open>The calls that announce nothing.\<close>

lemma silent_calls:
  "cn_state (connection_send kind payload c) = cn_state c" "cn_events (connection_send kind payload c) = cn_events c"
  "cn_state (connection_set_config config c) = cn_state c" "cn_events (connection_set_config config c) = cn_events c"
  "cn_state (set_id i c) = cn_state c" "cn_events (set_id i c) = cn_events c"
  "cn_state (set_peer_addr addr c) = cn_state c" "cn_events (set_peer_addr addr c) = cn_events c"
  "cn_state (connection_close c) = Closing" "cn_events (connection_close c) = cn_events c"
  "cn_state (fst (connection_reset R clk c)) = Connecting" "cn_events (fst (connection_reset R clk c)) = cn_events c"
  by (simp_all add: connection_send_def connection_set_config_def set_id_def set_peer_addr_def connection_close_def
      connection_reset_def split_beta)

lemma follows_life:
  assumes "follows c1 c2" "run_life s ts = Some (cn_state c1)" "announced ts = es @ cn_events c1"
  shows "run_life s (ts @ news (cn_events c1) (cn_events c2)) = Some (cn_state c2) \<and>
    announced (ts @ news (cn_events c1) (cn_events c2)) = es @ cn_events c2"
  using assms by (auto simp: follows_def news_def run_life_append run_life_announced)

context rate_limiter_laws
begin

lemma driven_refines:
  fixes M :: "'m packet_modifier" and S :: "'s socket"
  assumes "driven R M S c ts es c'" "conn_invar invar c" "cn_events c = []"
  shows "conn_invar invar c' \<and> run_life (cn_state c) ts = Some (cn_state c') \<and> announced ts = es @ cn_events c'"
  using assms
proof (induction rule: driven.induct)
  case (d_receive ts es c1 packet clk accepted c2 clk')
  then have i: "conn_invar invar c1" by simp
  from receive_packet_invar [OF i, of M packet clk] d_receive.hyps(2) have "conn_invar invar c2"
    by (metis option.inject prod.inject)
  with follows_life [OF receive_packet_follows [OF i d_receive.hyps(2)]] d_receive.IH [OF d_receive.prems]
  show ?case by blast
next
  case (d_send_packet ts es c1 addr clk s n c2 s' clk')
  then have i: "conn_invar invar c1" by simp
  from send_packet_invar [OF i, of M S addr clk s] d_send_packet.hyps(2) have "conn_invar invar c2"
    by (metis option.inject prod.inject)
  with follows_life [OF send_packet_follows [OF i d_send_packet.hyps(2)]] d_send_packet.IH [OF d_send_packet.prems]
  show ?case by blast
next
  case (d_events ts es c1 es' c2)
  obtain payloads rest where d: "drain_received (recv_queue (cn_queue c1)) = (payloads, rest)" by force
  have c2: "es' = cn_events c1 @ map Message_Event payloads" "cn_events c2 = []" "cn_state c2 = cn_state c1"
    using d_events.hyps(2) by (auto simp: connection_events_def d)
  from d_events conn_invar_simple_ops(2) [of invar c1] have "conn_invar invar c2" by simp
  with d_events.IH [OF d_events.prems] show ?case
    by (simp add: c2 news_def run_life_append run_life_announced del: map_map)
qed (simp_all add: conn_invar_simple_ops conn_invar_set_config connection_reset_invar silent_calls run_life_append)

end

text \<open>C7: The events describe the connection's life, over every use of it, \<open>close\<close> and \<open>reset\<close> included. The events that
  were drained and those still waiting are the announced ones, all of them, once and in order; and
  replayed on the abstract automaton from the state the connection started in, together with the calls of
  \<open>close\<close> and \<open>reset\<close> at their places among them, they lead to exactly the present state. So no
  state change that its owner did not make goes unannounced, none is announced twice, and a final state is
  announced once.\<close>

theorem events_refine_automaton:
  assumes "conn_reachable binary_limiter M S binary_valid c" "cn_events c = []"
    and "driven binary_limiter M S c ts es c'"
  shows "run_life (cn_state c) ts = Some (cn_state c') \<and> announced ts = es @ cn_events c'"
  using binary.driven_refines [OF assms(3) binary_conn_invar [OF assms(1)] assms(2)] by blast

text \<open>A connection that connects, is closed, and ends at the deadline for that.\<close>

theorem events_refine_automaton_witness:
  "\<exists>c1 clk1 c2 clk2.
    receive_packet noop_modifier [1, 2, 3, 4, 0, 0, 0, 7, 1, 0, 0, 0, 0, 0] (\<lambda>_. 5) (fresh_connection default_config 7) =
      Some (True, c1, clk1) \<and>
    send_packet binary_limiter noop_modifier (udp_ops idle_os) any_addr (\<lambda>_. 200000000) (connection_close c1) fresh_socket =
      Some (0, c2, fresh_socket, clk2) \<and>
    run_life Connecting [Announced Connected_Event, Close_Called, Announced (Closed_Event False)] = Some (cn_state c2) \<and>
    cn_events c2 = [Connected_Event, Closed_Event False]"
proof -
  let ?c = "fresh_connection default_config 7" and ?packet = "[1, 2, 3, 4, 0, 0, 0, 7, 1, 0, 0, 0, 0, 0] :: bytes"
  have i: "conn_invar binary_invar ?c" by (rule binary_conn_invar [OF fresh_default])
  have u: "update_receive_state ?packet ?c = (True, push_event Connected_Event (?c\<lparr>cn_state := Connected, lost_packets := 0\<rparr>))"
    by (simp add: update_receive_state_def)
  show ?thesis
  proof (rule receive_packet_accepted [OF i, of ?packet noop_modifier None NoopPacketModifier "[]" "\<lambda>_. 5"], goal_cases)
    case (5 c1)
    note r = 5(1) and c1 = 5(3,7,8,9) [unfolded u]
    let ?c1 = "connection_close c1"
    have "\<not> final (cn_state ?c1)" "(\<lambda>_. 200000000) 0 - last_receive_time ?c1 > receive_deadline ?c1"
      using c1 by (simp_all add: final_def receive_deadline_def connection_close_def)
    from missed_deadline [OF this, of binary_limiter noop_modifier "udp_ops idle_os" any_addr fresh_socket] obtain c2 where
      s: "send_packet binary_limiter noop_modifier (udp_ops idle_os) any_addr (\<lambda>_. 200000000) ?c1 fresh_socket =
          Some (0, c2, fresh_socket, clock_skip 2 (\<lambda>_. 200000000))"
        "cn_events c2 = cn_events ?c1 @ [timeout_event (cn_state ?c1)]"
      by blast
    have e: "cn_events c1 = [Connected_Event]" "cn_events c2 = [Connected_Event, Closed_Event False]"
      using c1(1) s(2) by (simp_all add: push_event_def silent_calls)
    from events_refine_automaton [OF fresh_default fresh_fields(8)
      d_send_packet [OF d_close [OF d_receive [OF d_start r]] s(1)]]
    have "run_life Connecting [Announced Connected_Event, Close_Called, Announced (Closed_Event False)] = Some (cn_state c2)"
      by (simp only: fresh_fields(1) silent_calls) (simp add: e news_def silent_calls del: run_life.simps)
    with r s(1) e(2) show ?case by blast
  qed (simp_all add: u PACKET_HEADER_SIZE_def lost_payloads_def stamped_def push_event_def)
qed

lemma open_iff: "connection_open c \<longleftrightarrow> \<not> final (cn_state c)"
  by (simp add: connection_open_def final_def split: connection_state.splits)

text \<open>A lost, closed or failed connection is silent: it takes no packet, sends none, emits nothing and
  keeps its whole state.\<close>

lemma final_states_are_silent:
  assumes "\<not> connection_open c"
  shows "receive_packet M packet clk c = Some (False, c, clk) \<and>
    send_packet R M S addr clk c s = Some (0, c, s, clock_skip 2 clk)"
proof -
  have "final (cn_state c)" using assms by (simp add: open_iff)
  then show ?thesis by (simp add: final_receive final_send)
qed

text \<open>C18: No connection waits for ever: the first \<open>send_packet\<close> after the deadline of the present state has
  passed without an accepted packet sends nothing and ends the connection, with the one event that
  belongs to that state.\<close>

theorem missed_deadline_ends:
  assumes "connection_open c"
    and "clk 0 - last_receive_time c >
      (case cn_state c of
         Connecting \<Rightarrow> connection_init_threshold (cn_config c)
       | Connected \<Rightarrow> connection_drop_threshold (cn_config c)
       | _ \<Rightarrow> connection_closing_threshold (cn_config c))"
  shows "\<exists>c'. send_packet R M S addr clk c s = Some (0, c', s, clock_skip 2 clk) \<and> \<not> connection_open c' \<and>
    cn_events c' = cn_events c @
      [case cn_state c of
         Connecting \<Rightarrow> FailedToConnect_Event | Connected \<Rightarrow> Lost_Event True | _ \<Rightarrow> Closed_Event False]"
proof -
  have "clk 0 - last_receive_time c > receive_deadline c"
    using assms(2) by (simp add: receive_deadline_def)
  moreover have "timeout_event (cn_state c) =
      (case cn_state c of Connecting \<Rightarrow> FailedToConnect_Event | Connected \<Rightarrow> Lost_Event True | _ \<Rightarrow> Closed_Event False)"
    by (cases "cn_state c") simp_all
  ultimately show ?thesis using missed_deadline [of c clk R M S addr s] assms(1) by (simp add: open_iff)
qed

theorem missed_deadline_ends_witness:
  "\<exists>c'. send_packet binary_limiter noop_modifier (udp_ops idle_os) any_addr (\<lambda>_. 100000001)
      (fresh_connection default_config 7) fresh_socket = Some (0, c', fresh_socket, clock_skip 2 (\<lambda>_. 100000001)) \<and>
    cn_events c' = [FailedToConnect_Event]"
  using missed_deadline_ends [of "fresh_connection default_config 7" "\<lambda>_. 100000001" binary_limiter
      noop_modifier "udp_ops idle_os" any_addr fresh_socket]
  by (auto simp: connection_open_def)

subsection \<open>Old packets and the closure packet\<close>

text \<open>C14: Duplicates and old packets change nothing. Number the packets of the peer from zero; let the latest
  received be the \<open>y\<close>-th and an incoming one the \<open>x\<close>-th, with less than half of the 256 wire numbers
  between them. An established connection accepts it exactly when it is newer, across any number of
  wrap-arounds, and a packet it does not accept leaves no trace.\<close>

theorem only_newer_packets_count:
  assumes "conn_reachable binary_limiter M S binary_valid c" "cn_state c = Connected"
    and "14 \<le> length packet" "take 4 packet = header_bytes (protocol_header (cn_config c))"
    and "take 6 (drop 8 packet) \<noteq> CLOSURE_PACKET_DATA"
    and "unat (packet ! 8) = x mod 256" "unat (remote_seq_number c) = y mod 256"
    and "x < y + 128" "y < x + 128"
  shows "\<exists>c' clk'. receive_packet M packet clk c = Some (y < x, c', clk') \<and> (x \<le> y \<longrightarrow> c' = c)"
proof -
  have num: "unat (ucast (packet ! 8) :: u32) = x mod 256"
    using assms(6) unsigned_less [of "packet ! 8"] by (simp add: unsigned_ucast_eq take_bit_nat_eq_self)
  have recent: "seq_is_more_recent (ucast (packet ! 8)) (remote_seq_number c) \<longleftrightarrow> y < x"
    using seq_numbers.wrapped_newer [OF num assms(7)] seq_numbers.wrapped_older [OF num assms(7)] assms(8,9)
    by (cases "y < x") simp_all
  have u: "update_receive_state packet c = (y < x, c)"
    using assms(2,4,5) recent by (simp add: update_receive_state_def)
  show ?thesis
  proof (cases "y < x")
    case True
    obtain replacement modifier where
      m: "pm_incoming M (drop PACKET_HEADER_SIZE packet) (cn_modifier c) = (replacement, modifier)" by force
    have len: "PACKET_HEADER_SIZE \<le> length packet" using assms(3) by (simp add: PACKET_HEADER_SIZE_def)
    have acc: "fst (update_receive_state packet c)" using u True by simp
    show ?thesis
      by (rule receive_packet_accepted [OF binary_conn_invar [OF assms(1)] len acc m refl, of clk]) (use True in auto)
  next
    case False
    with u show ?thesis by (simp add: receive_packet_def)
  qed
qed

lemma fresh_established:
  "\<exists>c. conn_reachable binary_limiter noop_modifier S binary_valid c \<and> cn_state c = Connected \<and>
     cn_config c = default_config \<and> remote_seq_number c = 255"
proof -
  let ?packet = "[1, 2, 3, 4, 0, 0, 0, 7, 255, 0, 0, 0, 0, 0] :: bytes"
  let ?c = "fresh_connection default_config 7"
  have u: "fst (update_receive_state ?packet ?c)" "cn_state (snd (update_receive_state ?packet ?c)) = Connected"
    by (simp_all add: update_receive_state_def push_event_def)
  have i: "conn_invar binary_invar ?c" by (rule binary_conn_invar [OF fresh_default [of "udp_ops idle_os"]])
  have len: "PACKET_HEADER_SIZE \<le> length ?packet" by (simp add: PACKET_HEADER_SIZE_def)
  have m: "pm_incoming noop_modifier (drop PACKET_HEADER_SIZE ?packet) (cn_modifier ?c) = (None, NoopPacketModifier)"
    by simp
  obtain c' where "receive_packet noop_modifier ?packet (\<lambda>_. 0) ?c = Some (True, c', clock_skip 1 (\<lambda>_. 0))"
    "cn_state c' = Connected" "cn_config c' = default_config" "remote_seq_number c' = 255"
    by (rule receive_packet_accepted [OF i len u(1) m refl, of "\<lambda>_. 0"]) (use u(2) in auto)
  then show ?thesis using cr_receive [OF fresh_default] by blast
qed

theorem only_newer_packets_count_witness:
  "\<exists>c. cn_state (c :: (binary_rate_limiter, noop_packet_modifier) connection) = Connected \<and> remote_seq_number c = 255 \<and>
    (\<exists>c' clk'. receive_packet noop_modifier [1, 2, 3, 4, 0, 0, 0, 7, 3, 0, 0, 0, 0, 0] (\<lambda>_. 0) c = Some (True, c', clk')) \<and>
    (\<exists>clk'. receive_packet noop_modifier [1, 2, 3, 4, 0, 0, 0, 7, 250, 0, 0, 0, 0, 0] (\<lambda>_. 0) c = Some (False, c, clk'))"
proof -
  obtain c :: "(binary_rate_limiter, noop_packet_modifier) connection" where
    c: "conn_reachable binary_limiter noop_modifier (udp_ops idle_os) binary_valid c" "cn_state c = Connected"
      "cn_config c = default_config" "remote_seq_number c = 255"
    using fresh_established by blast
  note step = only_newer_packets_count [OF c(1,2), of _ _ 255 "\<lambda>_. 0"]
  from step [of "[1, 2, 3, 4, 0, 0, 0, 7, 3, 0, 0, 0, 0, 0]" 259]
    step [of "[1, 2, 3, 4, 0, 0, 0, 7, 250, 0, 0, 0, 0, 0]" 250] c(2-4)
  show ?thesis by (auto simp: CLOSURE_PACKET_DATA_def)
qed

text \<open>C36: An ordinary packet can be taken for the closure packet, which is told apart only by the values
  of the sequence number and the ack fields: when a packet that happens to have number 0 acknowledges
  number 128 and, of the 32 before it, every second one, an established receiver closes the connection.\<close>

theorem data_packet_taken_for_closure:
  assumes "conn_invar ok c" "cn_state c = Connected" "local_seq_number c = 0" "remote_seq_number c = 128"
    and "recv_ack_queue c = 128 # map (\<lambda>k. 127 - 2 * word_of_nat k) [0..<16]"
    and "cn_state d = Connected" "protocol_header (cn_config d) = protocol_header (cn_config c)"
  shows "\<exists>packet queue d'. write_packet c = Some (packet, queue) \<and>
    receive_packet M packet clk d = Some (False, d', clk) \<and> cn_state d' = Closed \<and>
    cn_events d' = cn_events d @ [Closed_Event True]"
proof (rule write_packet_spec [OF assms(1)])
  fix body queue
  assume w: "write_packet c = Some (packet_header c @ body, queue)"
  have open_c: "cn_state c \<noteq> Closing" using assms(2) by simp
  have b: "ack_bitfield 128 (128 # map (\<lambda>k. 127 - 2 * word_of_nat k) [0..<16]) 0 = Some 0x55555555"
    by (simp add: upt_rec seq_bit_index_def checked_sub_u32_def MAX_ACK_BITS_def)
  have "header_bitfield c = 0x55555555"
    using open_c by (simp add: header_bitfield_def assms(4,5) b del: ack_bitfield.simps)
  then have h: "packet_header c = header (protocol_header (cn_config c)) (random_id c) 0 128 0x55555555"
    by (simp add: packet_header_def header_seq_def header_ack_def assms(2-4))
  have "take 6 (drop 8 (packet_header c @ body)) = CLOSURE_PACKET_DATA"
    unfolding h header_fields(9) [OF refl] by (simp add: u32_bytes_def CLOSURE_PACKET_DATA_def)
  moreover have "take 4 (packet_header c @ body) = header_bytes (protocol_header (cn_config d))"
    unfolding h header_fields(1) [OF refl] assms(7) ..
  ultimately have "receive_packet M (packet_header c @ body) clk d =
      Some (False, push_event (Closed_Event True) (d\<lparr>cn_state := Closed\<rparr>), clk)"
    using assms(6)
    by (simp add: receive_packet_def update_receive_state_def PACKET_HEADER_SIZE_def CLOSURE_PACKET_DATA_def)
  with w show ?thesis by (auto simp: push_event_def)
qed

theorem data_packet_taken_for_closure_witness:
  "\<exists>packet queue d'. write_packet (established 128 (128 # map (\<lambda>k. 127 - 2 * word_of_nat k) [0..<16])) = Some (packet, queue) \<and>
    receive_packet noop_modifier packet (\<lambda>_. 0) (established 0 []) = Some (False, d', \<lambda>_. 0) \<and> cn_state d' = Closed"
proof -
  have "conn_invar (\<lambda>_. True) (established 128 (128 # map (\<lambda>k. 127 - 2 * word_of_nat k) [0..<16]))"
    by (rule established_invar) (simp_all add: upt_rec)
  from data_packet_taken_for_closure [OF this _ _ _ _ _ _, of "established 0 []" noop_modifier "\<lambda>_. 0"]
  show ?thesis by force
qed

subsection \<open>Delivery and loss\<close>

text \<open>C2: A packet that arrives delivers what it carries. A connection that is not closing hands a packet within
  the configured size to the socket and keeps it while it is pending; a peer that is still connecting, or for which it is
  newer and not the special number 0, accepts it, and takes exactly the messages the sender took off its
  queues, each kind in the order it had there. Only the peer's own overdue packets are queued again first.\<close>

theorem packet_delivers_messages:
  assumes "conn_reachable binary_limiter M S' binary_valid c" "cn_state c \<noteq> Closing" "send_wf (cn_queue c)"
    and "conn_reachable binary_limiter M' S'' binary_valid d"
    and "protocol_header (cn_config d) = protocol_header (cn_config c)"
    and "cn_state d = Connecting \<or>
      cn_state d = Connected \<and> seq_is_more_recent (local_seq_number c) (remote_seq_number d) \<and> local_seq_number c \<noteq> 0"
  shows "\<exists>wire ms lost n c' clk' d'.
    transmit_packet noop_modifier S addr clk c s = Some (n, c', snd (sock_send_to S wire addr s), clk') \<and>
    length wire \<le> packet_max_size (cn_config c) \<and>
    (send_ack_required (local_seq_number c) c \<longrightarrow> sp_packet (last (sent_ack_queue c')) = Some wire) \<and>
    of_kind Instant ms @ i_queue (cn_queue c') = i_queue (cn_queue c) \<and>
    of_kind Reliable ms @ r_queue (cn_queue c') = r_queue (cn_queue c) \<and>
    of_kind Ordered ms @ o_queue (cn_queue c') = o_queue (cn_queue c) \<and>
    receive_packet noop_modifier wire clk1 d = Some (True, d', clock_skip 1 clk1) \<and>
    cn_queue d' = fold receive_message ms (fold mq_lost_packet lost (cn_queue d)) \<and>
    cn_state d' = Connected"
proof -
  note invar = binary_conn_invar [OF assms(1)]
  show ?thesis
  proof (rule noop.transmitted_packet_delivers [OF invar assms(2,3) binary_conn_invar [OF assms(4)] TrueI assms(5,6),
      of S addr clk s clk1], goal_cases)
    case (1 wire body ms lost n c' clk' d')
    have "14 \<le> packet_max_size (cn_config c)"
      using invar by (simp add: conn_invar_def valid_settings_def PACKET_HEADER_SIZE_def)
    then have "length wire \<le> packet_max_size (cn_config c)" using 1(1,2) by (simp add: PACKET_HEADER_SIZE_def)
    with 1(3-10) show ?case by blast
  qed
qed

theorem packet_delivers_messages_witness:
  "\<exists>wire n c' clk' d'.
    transmit_packet noop_modifier (udp_ops idle_os) any_addr (\<lambda>_. 3) (fresh_connection default_config 7) fresh_socket =
      Some (n, c', snd (sock_send_to (udp_ops idle_os) wire any_addr fresh_socket), clk') \<and>
    length wire \<le> 1400 \<and>
    receive_packet noop_modifier wire (\<lambda>_. 9) (fresh_connection default_config 8) = Some (True, d', clock_skip 1 (\<lambda>_. 9)) \<and>
    cn_state d' = Connected"
proof -
  have "send_wf (cn_queue (fresh_connection default_config 7))" by (simp add: send_wf_new)
  from packet_delivers_messages [OF fresh_default [of "udp_ops idle_os" 7] _ this fresh_default [of "udp_ops idle_os" 8],
      of "udp_ops idle_os" any_addr "\<lambda>_. 3" fresh_socket "\<lambda>_. 9"]
  show ?thesis by force
qed

text \<open>C34: A peer that has not received anything acknowledges packet 0 all the same, for its latest number is 0
  from the start: the first packet it sends, lost or not on the way there, removes packet 0 from the pending ones, however
  overdue it is. It is not reported lost and its reliable messages are not queued again.\<close>

theorem unreceived_packet_is_acked:
  assumes "conn_invar ok c" "conn_invar ok' d" "cn_state d \<noteq> Closing"
    and "remote_seq_number d = 0" "recv_ack_queue d = []"
    and "write_packet d = Some (packet, queue)" "fst (update_receive_state packet c)"
    and "sent_ack_queue c = [p]" "sp_seq p = 0"
  shows "\<exists>c' body. receive_packet M packet clk c = Some (True, c', clock_skip 1 clk) \<and> sent_ack_queue c' = [] \<and>
    cn_events c' = cn_events (snd (update_receive_state packet c)) \<and>
    r_queue (cn_queue c') = r_queue (cn_queue c) \<and> o_queue (cn_queue c') = o_queue (cn_queue c)"
proof -
  obtain body where p: "packet = packet_header d @ body"
    by (rule write_packet_spec [OF assms(2)]) (use assms(6) in simp)
  have acked: "is_acked (ack_of packet) (bitfield_of packet) p"
    using acked_iff_acknowledges [OF assms(2,3) p, of 0] by (simp add: is_acked_def assms(4,9) acknowledges_def)
  have long: "PACKET_HEADER_SIZE \<le> length packet" by (simp add: p PACKET_HEADER_SIZE_def)
  obtain replacement modifier where
    m: "pm_incoming M (drop PACKET_HEADER_SIZE packet) (cn_modifier c) = (replacement, modifier)" by force
  have none: "lost_payloads (ack_of packet) (bitfield_of packet) (stamped packet clk c) (sent_ack_queue c) = []"
    by (simp add: lost_payloads_def assms(8) acked)
  have keep: "r_queue (mq_receive_packet b q) = r_queue q \<and> o_queue (mq_receive_packet b q) = o_queue q" for b q
    using receive_packet_out_side [of b q] by (simp add: out_side_def)
  show ?thesis
    by (rule receive_packet_accepted [OF assms(1) long assms(7) m none [symmetric]])
      (simp add: assms(8) acked keep)
qed

theorem unreceived_packet_is_acked_witness:
  "\<exists>c'. receive_packet noop_modifier [1, 2, 3, 4, 0, 0, 0, 7, 0, 0, 0, 0, 0, 0] (\<lambda>_. 2000000000)
      ((awaiting 0)\<lparr>remote_seq_number := 200\<rparr>) = Some (True, c', clock_skip 1 (\<lambda>_. 2000000000)) \<and>
    sent_ack_queue c' = [] \<and> cn_events c' = [] \<and> r_queue (cn_queue c') = []"
proof -
  let ?c = "(awaiting 0)\<lparr>remote_seq_number := 200\<rparr>" and ?packet = "[1, 2, 3, 4, 0, 0, 0, 7, 0, 0, 0, 0, 0, 0] :: bytes"
  have i: "conn_invar (\<lambda>_. True) ?c"
    using awaiting_invar [of 0] by (simp add: conn_invar_def)
  have u: "update_receive_state ?packet ?c = (True, ?c)"
    by (simp add: update_receive_state_def CLOSURE_PACKET_DATA_def seq_is_more_recent_def MAX_SEQ_NUMBER_def)
  have w: "write_packet (established 0 []) = Some (?packet, mq_new default_config)"
    by (simp add: write_packet_def PACKET_HEADER_SIZE_def queue_eval u32_bytes_def id_bytes_def established_def
        fresh_connection_def connection_new_def)
  show ?thesis
    using unreceived_packet_is_acked [OF i established_invar [of 0 "[]"] _ _ _ w, of "pending_packet 0" noop_modifier "\<lambda>_. 2000000000"]
    by (auto simp: u pending_packet_def mq_new_def)
qed

subsection \<open>Closing\<close>

text \<open>Rounds of one packet received and one \<open>send_packet\<close>, each with its own clock.\<close>

fun rounds ::
  "'r rate_limiter \<Rightarrow> 'm packet_modifier \<Rightarrow> 's socket \<Rightarrow> socket_addr \<Rightarrow> (bytes \<times> clock \<times> clock) list \<Rightarrow>
     ('r, 'm) connection \<Rightarrow> 's \<Rightarrow> (('r, 'm) connection \<times> 's) option" where
  "rounds R M S addr [] c s = Some (c, s)"
| "rounds R M S addr ((packet, clk1, clk2) # rs) c s =
     do {
       (_, c, _) \<leftarrow> receive_packet M packet clk1 c;
       (_, c, s, _) \<leftarrow> send_packet R M S addr clk2 c s;
       rounds R M S addr rs c s
     }"

lemma closing_round:
  assumes "conn_invar binary_invar c" "cn_state c = Closing" "14 \<le> length packet"
    and "take 4 packet = header_bytes (protocol_header (cn_config c))"
    and "clk2 0 - clk1 0 \<le> connection_closing_threshold (cn_config c)"
  obtains c1 n c2 s' clk' where "receive_packet M packet clk1 c = Some (True, c1, clock_skip 1 clk1)"
    "send_packet binary_limiter M S addr clk2 c1 s = Some (n, c2, s', clk')" "cn_state c2 = Closing"
    "conn_invar binary_invar c2" "cn_config c2 = cn_config c"
proof -
  have u: "update_receive_state packet c = (True, c)" using assms by (simp add: update_receive_state_def)
  then have acc: "fst (update_receive_state packet c)" by simp
  have long: "PACKET_HEADER_SIZE \<le> length packet" using assms(3) by (simp add: PACKET_HEADER_SIZE_def)
  obtain replacement modifier where
    m: "pm_incoming M (drop PACKET_HEADER_SIZE packet) (cn_modifier c) = (replacement, modifier)" by force
  obtain c1 where 1: "receive_packet M packet clk1 c = Some (True, c1, clock_skip 1 clk1)"
    "last_receive_time c1 = clk1 0" "cn_state c1 = Closing" "cn_config c1 = cn_config c"
    by (rule receive_packet_accepted [OF assms(1) long acc m refl, of clk1]) (use assms(2) u in simp)
  have invar: "conn_invar binary_invar c1"
    by (rule receive_packet_invar [OF assms(1), of M packet clk1]) (use 1(1) in simp)
  have "cn_state (fst (snd (update_send_state clk2 c1))) = Closing"
    using 1(2-4) assms(5) by (simp add: update_send_state_def Let_def)
  moreover obtain n c2 s' clk' where "send_packet binary_limiter M S addr clk2 c1 s = Some (n, c2, s', clk')"
    "conn_invar binary_invar c2" "same_peer c1 c2" "cn_state c2 = cn_state (fst (snd (update_send_state clk2 c1)))"
    by (rule binary_send_packet_invar [OF invar, of M S addr clk2 s])
  ultimately show thesis using that [OF 1(1)] 1(4) by (simp add: same_peer_def)
qed

text \<open>C38: A closing connection stays closing for as long as packets arrive: any packet with the right protocol
  header, the peer's ordinary or closure packets alike, restarts the closing threshold, and nothing but
  the threshold ends the closing state. Two ends that close at the same time keep each other there.\<close>

theorem closing_lasts_under_traffic:
  assumes "conn_invar binary_invar c" "cn_state c = Closing"
    and "\<forall>(packet, clk1, clk2) \<in> set rs. 14 \<le> length packet \<and>
      take 4 packet = header_bytes (protocol_header (cn_config c)) \<and>
      clk2 0 - clk1 0 \<le> connection_closing_threshold (cn_config c)"
  shows "\<exists>c' s'. rounds binary_limiter M S addr rs c s = Some (c', s') \<and> cn_state c' = Closing"
  using assms
proof (induction rs arbitrary: c s)
  case (Cons r rs)
  obtain packet clk1 clk2 where r: "r = (packet, clk1, clk2)" by (cases r) auto
  from Cons.prems(3) have p: "14 \<le> length packet" "take 4 packet = header_bytes (protocol_header (cn_config c))"
    "clk2 0 - clk1 0 \<le> connection_closing_threshold (cn_config c)" by (simp_all add: r)
  obtain c1 n c2 s' clk' where 1: "receive_packet M packet clk1 c = Some (True, c1, clock_skip 1 clk1)"
    "send_packet binary_limiter M S addr clk2 c1 s = Some (n, c2, s', clk')"
    and 2: "cn_state c2 = Closing" "conn_invar binary_invar c2" "cn_config c2 = cn_config c"
    by (rule closing_round [of c packet clk2 clk1 M S addr s, OF Cons.prems(1,2) p])
  from Cons.IH [OF 2(2,1), of s'] Cons.prems(3) show ?case by (simp add: r 1 2(3))
qed simp

theorem closing_lasts_under_traffic_witness:
  "\<exists>c' s'. rounds binary_limiter noop_modifier (udp_ops idle_os) any_addr
      (replicate 3 ([1, 2, 3, 4, 0, 0, 0, 7] @ CLOSURE_PACKET_DATA, \<lambda>_. 5, \<lambda>_. 9))
      (connection_close (fresh_connection default_config 7)) fresh_socket = Some (c', s') \<and> cn_state c' = Closing"
proof (rule closing_lasts_under_traffic)
  show "conn_invar binary_invar (connection_close (fresh_connection default_config 7))"
    by (rule binary_conn_invar [OF cr_close [OF fresh_default [of "udp_ops idle_os"]]])
qed (simp_all add: connection_close_def CLOSURE_PACKET_DATA_def)

end
