(* ===== verification/Client_Properties.thy ===== *)
theory Client_Properties
  imports Client Connection_Properties
begin

text \<open>
  The properties of a client: its parts are there all together or not at all, the connection is kept
  in its invariant, and only packets from the server's address matter.
\<close>

subsection \<open>The invariant\<close>

definition client_ok :: "('r \<Rightarrow> bool) \<Rightarrow> (config \<Rightarrow> bool) \<Rightarrow> ('s, 'r, 'm) client \<Rightarrow> bool" where
  "client_ok limiter_ok config_ok c \<longleftrightarrow>
     valid_settings (cl_config c) \<and> config_ok (cl_config c) \<and>
     (case cl_connection c of
        None \<Rightarrow> cl_socket c = None \<and> cl_peer_address c = None \<and> cl_local_address c = None \<and> \<not> cl_should_receive c
      | Some connection \<Rightarrow>
          cl_socket c \<noteq> None \<and> cl_local_address c \<noteq> None \<and>
          cl_peer_address c = Some (peer_address connection) \<and> cn_config connection = cl_config c \<and>
          conn_invar limiter_ok connection)"

text \<open>Replacing the connection by one in its invariant with the same peer keeps a client consistent.\<close>

lemma client_ok_replace:
  assumes "client_ok ok config_ok c" "cl_connection c = Some connection"
    and "cl_connection c' = Some connection'" "conn_invar ok connection'" "same_peer connection connection'"
    and "cl_socket c' \<noteq> None" "cl_local_address c' = cl_local_address c"
    and "cl_peer_address c' = cl_peer_address c" "cl_config c' = cl_config c"
  shows "client_ok ok config_ok c'"
  using assms by (simp add: client_ok_def same_peer_def)

lemma client_receive_loop_keeps:
  assumes "recv_loop S (client_packet M peer) s (n, connection, clk) = Some ((n', connection', clk'), s')"
    and "conn_invar ok connection"
  shows "conn_invar ok connection' \<and> same_peer connection connection'"
proof -
  let ?P = "\<lambda>(n, c, clk :: clock). conn_invar ok c \<and> same_peer connection c"
  have "?P (fst ((n', connection', clk'), s'))"
  proof (rule recv_loop_invar [OF assms(1)])
    show "\<forall>addr packet a a'. ?P a \<longrightarrow> client_packet M peer addr packet a = Some a' \<longrightarrow> ?P a'"
    proof (clarify, goal_cases)
      case (1 addr packet n c clk n' c' clk')
      show ?case
        by (rule receive_packet_invar [OF 1(1), of M packet clk])
          (use 1 same_peer_trans in \<open>auto simp: client_packet_def split: if_splits\<close>)
    qed
  qed (use assms(2) in simp)
  then show ?thesis by simp
qed

lemma client_receive_tick_keeps:
  assumes "client_ok ok config_ok c" "client_receive_tick M S clk c = Some (c', clk')"
  shows "client_ok ok config_ok c'"
proof -
  from assms(2) obtain peer s connection received connection1 clk1 s' collector es connection2 t clk0 where
    r: "cl_connection c = Some connection"
      "recv_loop S (client_packet M peer) s (0, connection, clk0) = Some ((received, connection1, clk1), s')"
      "connection2 = snd (connection_events connection1)"
      "c' = c\<lparr>cl_ticker := t, cl_socket := Some s', cl_connection := Some connection2,
        cl_stats_collector := collector, cl_events := cl_events c @ map client_event_of es, cl_should_receive := False\<rparr>"
    by (auto simp: client_receive_tick_def bind_Some_iff split_beta)
  have invar: "conn_invar ok connection" using assms(1) r(1) by (simp add: client_ok_def)
  note l = client_receive_loop_keeps [OF r(2) invar]
  have "conn_invar ok connection2" using l by (simp add: r(3) conn_invar_simple_ops)
  moreover have "same_peer connection connection2"
    using l same_peer_trans same_peer_simple_ops(2) unfolding r(3) by blast
  ultimately show ?thesis
    by (rule client_ok_replace [OF assms(1) r(1), rotated]) (simp_all add: r(4))
qed

lemma client_ok_events [simp]: "client_ok ok config_ok (c\<lparr>cl_events := es\<rparr>) = client_ok ok config_ok c"
  by (simp add: client_ok_def cong: option.case_cong)

lemma client_receive_keeps:
  assumes "client_ok ok config_ok c" "client_receive M S clk c = Some (result, c', clk')"
  shows "client_ok ok config_ok c'"
proof (cases "cl_socket c = None")
  case True
  with assms show ?thesis by (simp add: client_receive_def)
next
  case False
  with assms(2) obtain c1 clk1 where
    1: "(if cl_should_receive c then client_receive_tick M S clk c else Some (c, clk)) = Some (c1, clk1)"
    "(result, c', clk') = (case cl_events c1 of e # es \<Rightarrow> (Inr e, c1\<lparr>cl_events := es\<rparr>, clk1) | [] \<Rightarrow> (Inl Empty, c1, clk1))"
    by (auto simp: client_receive_def bind_Some_iff)
  have "client_ok ok config_ok c1"
    using 1(1) assms(1) client_receive_tick_keeps by (auto split: if_splits)
  then show ?thesis using 1(2) by (cases "cl_events c1") simp_all
qed

lemma client_connect_keeps:
  assumes "client_ok ok config_ok c" "client_connect R M S resolve random clk c = Some (result, c', clk')"
    and new: "\<And>clk. config_ok (cl_config c) \<Longrightarrow> ok (fst (rl_new R (cl_config c) clk))"
  shows "client_ok ok config_ok c'"
proof -
  note v = assms(1) [unfolded client_ok_def]
  show ?thesis
  proof (cases "c' = c")
    case False
    have none: "cl_socket c = None" using assms(2) False by (cases "cl_socket c") (auto simp: client_connect_def)
    obtain s where s: "sock_new S wildcard_addr (packet_max_size (cl_config c)) = Inr s"
      using assms(2) False none
      by (cases "sock_new S wildcard_addr (packet_max_size (cl_config c))") (auto simp: client_connect_def)
    obtain addrs where a: "resolve = Inr addrs"
      using assms(2) False none s by (cases resolve) (auto simp: client_connect_def)
    obtain peer where p: "checked_nth addrs 0 = Some peer"
      using assms(2) none s a by (cases "checked_nth addrs 0") (auto simp: client_connect_def)
    obtain local_addr where "sock_local_addr S s = Inr local_addr"
      using assms(2) False none s a p by (cases "sock_local_addr S s") (auto simp: client_connect_def)
    note n = none s a p this
    obtain limiter clk1 where l: "rl_new R (cl_config c) clk = (limiter, clk1)" by force
    obtain connection clk2 where
      d: "connection_new (cl_config c) local_addr peer limiter (pm_new M (cl_config c)) random clk1 = (connection, clk2)"
      by force
    have c': "c' = c\<lparr>cl_socket := Some s, cl_peer_address := Some peer, cl_local_address := Some local_addr,
        cl_connection := Some connection, cl_should_receive := True\<rparr>"
      using assms(2) n by (auto simp: client_connect_def l d)
    have "conn_invar ok connection"
      using conn_invar_new [of "cl_config c" ok limiter local_addr peer "pm_new M (cl_config c)" random clk1] v d new [of clk] l
      by simp
    moreover have "peer_address connection = peer" "cn_config connection = cl_config c"
      using d by (auto simp: connection_new_def)
    ultimately show ?thesis using v by (simp add: client_ok_def c')
  qed (use assms(1) in simp)
qed

lemma client_set_config_keeps:
  assumes "client_ok ok config_ok c" "client_set_config config c = Some c'" "valid_settings config" "config_ok config"
  shows "client_ok ok config_ok c'"
  using assms
  by (auto simp: client_set_config_def client_ok_def bind_Some_iff conn_invar_set_config set_config_fields
      split: option.splits)

context rate_limiter_laws
begin

lemma client_send_keeps:
  assumes "client_ok invar config_ok c" "client_send R M S auto clk c = Some (result, sleep, c', clk')"
  shows "client_ok invar config_ok c'"
proof (cases "cl_socket c")
  case None
  with assms show ?thesis by (simp add: client_send_def)
next
  case (Some s)
  with assms(2) obtain connection peer n connection' s' clk1 collector t where
    r: "cl_connection c = Some connection" "send_packet R M S peer clk connection s = Some (n, connection', s', clk1)"
    "c' = c\<lparr>cl_socket := Some s', cl_connection := Some connection', cl_stats_collector := collector_tick collector,
       cl_stats := average (collector_tick collector), cl_should_receive := True, cl_ticker := t\<rparr>"
    by (auto simp: client_send_def bind_Some_iff Let_def)
  have i: "conn_invar invar connection" using assms(1) r(1) by (simp add: client_ok_def)
  have "conn_invar invar connection'" "same_peer connection connection'"
    by (rule send_packet_invar [OF i, of M S peer clk s]; use r(2) in simp)+
  then show ?thesis by (rule client_ok_replace [OF assms(1) r(1), rotated]) (simp_all add: r(3))
qed

lemma client_reset_keeps:
  assumes "client_ok invar config_ok c" "client_reset R clk c = Some (result, c', clk')"
  shows "client_ok invar config_ok c'"
proof (cases "cl_connection c")
  case None
  with assms show ?thesis by (auto simp: client_reset_def client_ok_def split: if_splits)
next
  case (Some connection)
  let ?connection = "fst (connection_reset R clk connection)"
  have some: "cl_socket c \<noteq> None" using assms(1) Some by (simp add: client_ok_def)
  then obtain t where c': "c' = c\<lparr>cl_connection := Some ?connection,
      cl_stats_collector := collector_reset (cl_stats_collector c),
      cl_stats := stats_reset (cl_stats c), cl_events := [], cl_ticker := t\<rparr>"
    using assms(2) Some by (auto simp: client_reset_def Let_def split: prod.splits if_splits)
  have "conn_invar invar connection" using assms(1) Some by (simp add: client_ok_def)
  then have "conn_invar invar ?connection" by (rule connection_reset_invar)
  then show ?thesis
    by (rule client_ok_replace [OF assms(1) Some, rotated]) (use some in \<open>simp_all add: c' same_peer_simple_ops\<close>)
qed

lemma client_disconnect_keeps:
  assumes "client_ok invar config_ok c" "client_disconnect R clk c = Some (result, c', clk')"
  shows "client_ok invar config_ok c'"
proof (cases "cl_socket c = None")
  case True
  with assms show ?thesis by (simp add: client_disconnect_def)
next
  case False
  with assms(2) obtain r c1 clk1 where 1: "client_reset R clk c = Some (r, c1, clk1)"
    "c' = c1\<lparr>cl_should_receive := False, cl_peer_address := None, cl_local_address := None,
      cl_connection := None, cl_socket := None\<rparr>"
    by (auto simp: client_disconnect_def bind_Some_iff)
  with client_reset_keeps [OF assms(1) 1(1)] show ?thesis by (simp add: client_ok_def)
qed

end

subsection \<open>Reachable clients\<close>

text \<open>Any use of a client: any socket, any name resolution, any clock, and any fair use of what it lends.\<close>

inductive client_reachable ::
  "'r rate_limiter \<Rightarrow> 'm packet_modifier \<Rightarrow> 's socket \<Rightarrow> ('r \<Rightarrow> bool) \<Rightarrow> (config \<Rightarrow> bool) \<Rightarrow> ('s, 'r, 'm) client \<Rightarrow> bool"
  for R :: "'r rate_limiter" and M :: "'m packet_modifier" and S :: "'s socket" and ok :: "'r \<Rightarrow> bool"
    and config_ok :: "config \<Rightarrow> bool"
where
  ck_new: "client_new config clk = Some (c, clk') \<Longrightarrow> valid_settings config \<Longrightarrow> config_ok config \<Longrightarrow>
    client_reachable R M S ok config_ok c"
| ck_connect: "client_reachable R M S ok config_ok c \<Longrightarrow>
    client_connect R M S resolve random clk c = Some (r, c', clk') \<Longrightarrow> client_reachable R M S ok config_ok c'"
| ck_receive: "client_reachable R M S ok config_ok c \<Longrightarrow>
    client_receive M S clk c = Some (r', c', clk') \<Longrightarrow> client_reachable R M S ok config_ok c'"
| ck_send: "client_reachable R M S ok config_ok c \<Longrightarrow>
    client_send R M S auto clk c = Some (r, sleep, c', clk') \<Longrightarrow> client_reachable R M S ok config_ok c'"
| ck_reset: "client_reachable R M S ok config_ok c \<Longrightarrow>
    client_reset R clk c = Some (r, c', clk') \<Longrightarrow> client_reachable R M S ok config_ok c'"
| ck_disconnect: "client_reachable R M S ok config_ok c \<Longrightarrow>
    client_disconnect R clk c = Some (r, c', clk') \<Longrightarrow> client_reachable R M S ok config_ok c'"
| ck_config: "client_reachable R M S ok config_ok c \<Longrightarrow> client_set_config config c = Some c' \<Longrightarrow>
    valid_settings config \<Longrightarrow> config_ok config \<Longrightarrow> client_reachable R M S ok config_ok c'"
| ck_connection: "client_reachable R M S ok config_ok c \<Longrightarrow> fair_use ok use \<Longrightarrow>
    client_reachable R M S ok config_ok (snd (client_connection (\<lambda>x. ((), use x)) c))"
| ck_socket: "client_reachable R M S ok config_ok c \<Longrightarrow>
    client_reachable R M S ok config_ok (snd (client_socket (\<lambda>x. ((), use' x)) c))"

lemma client_connection_keeps:
  assumes "client_ok ok config_ok c" "fair_use ok use"
  shows "client_ok ok config_ok (snd (client_connection (\<lambda>x. ((), use x)) c))"
proof (cases "cl_connection c")
  case (Some connection)
  have u: "conn_invar ok (use connection)" "same_peer connection (use connection)"
    using assms Some by (simp_all add: fair_use_def client_ok_def)
  show ?thesis
    by (rule client_ok_replace [OF assms(1) Some _ u])
      (use assms(1) Some in \<open>simp_all add: client_connection_def split_beta client_ok_def\<close>)
qed (use assms(1) in \<open>simp add: client_connection_def\<close>)

lemma client_socket_keeps:
  "client_ok ok config_ok c \<Longrightarrow> client_ok ok config_ok (snd (client_socket use c))"
  by (auto simp: client_socket_def client_ok_def split_beta split: option.splits)

context rate_limiter_laws
begin

lemma client_reachable_ok:
  fixes M :: "'m packet_modifier" and S :: "'s socket"
  shows "client_reachable R M S invar valid_config c \<Longrightarrow> client_ok invar valid_config c"
proof (induction rule: client_reachable.induct)
  case (ck_new config clk c clk')
  then show ?case by (auto simp: client_new_def client_ok_def bind_Some_iff)
next
  case (ck_connect c resolve random clk r c' clk')
  then show ?case using client_connect_keeps new_invar by blast
next
  case (ck_receive c clk r c' clk')
  then show ?case using client_receive_keeps by blast
next
  case (ck_send c auto clk r sleep c' clk')
  then show ?case using client_send_keeps by blast
next
  case (ck_reset c clk r c' clk')
  then show ?case using client_reset_keeps by blast
next
  case (ck_disconnect c clk r c' clk')
  then show ?case using client_disconnect_keeps by blast
next
  case (ck_config c config c')
  then show ?case using client_set_config_keeps by blast
qed (simp_all add: client_connection_keeps client_socket_keeps)

end

lemmas binary_client_ok = binary.client_reachable_ok

subsection \<open>Properties\<close>

text \<open>C17: In every reachable state a client is either entirely unconnected, without socket, connection and
  addresses and with nothing to receive, or entirely connected: it has all four, the connection sends to
  the address packets are accepted from, has the client's configuration and is in the state invariant
  under which it does not panic. So none of the \<open>unwrap\<close> calls of \<open>receive\<close>, \<open>send\<close> and \<open>reset\<close> fails.\<close>

theorem client_stays_consistent:
  assumes "client_reachable binary_limiter M S binary_invar binary_valid c"
  shows "case cl_connection c of
      None \<Rightarrow> cl_socket c = None \<and> cl_peer_address c = None \<and> cl_local_address c = None \<and> \<not> cl_should_receive c
    | Some connection \<Rightarrow> cl_socket c \<noteq> None \<and> cl_local_address c \<noteq> None \<and>
        cl_peer_address c = Some (peer_address connection) \<and> cn_config connection = cl_config c \<and>
        conn_invar binary_invar connection"
  using binary_client_ok [OF assms] by (simp add: client_ok_def)

text \<open>The client after \<open>connect\<close>, over a UDP socket with the given arrivals.\<close>

lemma client_connects:
  "\<exists>c clk c' clk'. client_new default_config (\<lambda>_. 0) = Some (c, clk) \<and>
     client_connect binary_limiter noop_modifier (udp_ops (fresh_os arrivals [])) (Inr [any_addr]) 7 clk c = Some (Inr (), c', clk') \<and>
     cl_connection c' = Some ((fresh_connection default_config 7)\<lparr>local_address := wildcard_addr\<rparr>) \<and>
     cl_peer_address c' = Some any_addr \<and> cl_should_receive c'"
  by (auto simp: client_new_def ticker_new_def client_connect_def udp_ops_def udp_new_def fresh_os_def udp_local_addr_def
      binary_limiter_simps split_beta fresh_connection_def connection_new_def noop_modifier_def noop_new_def
      binary_new_def)

theorem client_stays_consistent_witness:
  "\<exists>c clk c' clk' connection. client_new default_config (\<lambda>_. 0) = Some (c, clk) \<and>
     client_connect binary_limiter noop_modifier (udp_ops idle_os) (Inr [any_addr]) 7 clk c = Some (Inr (), c', clk') \<and>
     cl_connection c' = Some connection \<and> cl_socket c' \<noteq> None \<and> conn_invar binary_invar connection"
proof -
  obtain c clk c' clk' where n: "client_new default_config (\<lambda>_. 0) = Some (c, clk)"
    "client_connect binary_limiter noop_modifier (udp_ops idle_os) (Inr [any_addr]) 7 clk c = Some (Inr (), c', clk')"
    "cl_connection c' = Some ((fresh_connection default_config 7)\<lparr>local_address := wildcard_addr\<rparr>)"
    using client_connects [of silence] by blast
  have "client_reachable binary_limiter noop_modifier (udp_ops idle_os) binary_invar binary_valid c'"
    by (rule ck_connect [OF ck_new [OF n(1)] n(2)]) simp_all
  from client_stays_consistent [OF this] n show ?thesis by auto
qed

lemma run_body_client:
  "run_body (client_packet M peer) (filter (\<lambda>p. fst p = peer) ps) a = run_body (client_packet M peer) ps a"
  by (induction ps arbitrary: a) (auto simp: client_packet_def split_beta)

lemma client_receive_tick_delivers:
  assumes "delivers S s ps s'" "cl_peer_address c = Some peer"
  shows "client_receive_tick M S clk (c\<lparr>cl_socket := Some s\<rparr>) =
    do {
      connection \<leftarrow> cl_connection c;
      (received, connection, clk') \<leftarrow> run_body (client_packet M peer) ps (0, connection, clock_skip 1 clk);
      collector \<leftarrow> set_bytes_received (word_of_nat received) (cl_stats_collector c);
      Some (c\<lparr>cl_ticker := fst (begin_tick clk (cl_ticker c)), cl_socket := Some s',
              cl_connection := Some (snd (connection_events connection)),
              cl_stats_collector := collector,
              cl_events := cl_events c @ map client_event_of (fst (connection_events connection)),
              cl_should_receive := False\<rparr>, clk')
    }"
proof (cases "cl_connection c")
  case (Some connection)
  show ?thesis
  proof (cases "run_body (client_packet M peer) ps (0, connection, clock_skip 1 clk)")
    case None
    with Some assms(2) show ?thesis
      by (simp add: client_receive_tick_def begin_tick_def recv_loop_delivers [OF assms(1)])
  next
    case loop: (Some r)
    with Some assms(2) show ?thesis
      by (cases r; cases "set_bytes_received (word_of_nat (fst r)) (cl_stats_collector c)")
        (simp_all add: client_receive_tick_def begin_tick_def recv_loop_delivers [OF assms(1)] split_beta)
  qed
qed (use assms(2) in \<open>simp add: client_receive_tick_def begin_tick_def\<close>)

text \<open>C21: Only the server's packets count. Replace what the socket delivers by those packets of it that come
  from the server's address: \<open>receive\<close> gives the same result, the same client and the same clock, the
  socket aside, whatever else was sent to the client's port.\<close>

theorem foreign_packets_ignored:
  assumes "cl_peer_address c = Some peer" "cl_should_receive c"
    and "delivers S s ps s'" "delivers S s2 (filter (\<lambda>p. fst p = peer) ps) s2'"
  shows "client_receive M S clk (c\<lparr>cl_socket := Some s2\<rparr>) =
    map_option (\<lambda>(result, c', clk'). (result, c'\<lparr>cl_socket := Some s2'\<rparr>, clk'))
      (client_receive M S clk (c\<lparr>cl_socket := Some s\<rparr>))"
proof -
  have "client_receive_tick M S clk (c\<lparr>cl_socket := Some s2\<rparr>) =
    map_option (\<lambda>(c', clk'). (c'\<lparr>cl_socket := Some s2'\<rparr>, clk')) (client_receive_tick M S clk (c\<lparr>cl_socket := Some s\<rparr>))"
    unfolding client_receive_tick_delivers [OF assms(3,1)] client_receive_tick_delivers [OF assms(4,1)] run_body_client
    by (auto simp: split_beta map_option_case intro!: client.equality split: bind_splits option.splits)
  then show ?thesis
    using assms(2)
    by (cases "client_receive_tick M S clk (c\<lparr>cl_socket := Some s\<rparr>)")
      (auto simp: client_receive_def split_beta split: list.splits)
qed

definition socket_with :: "(io_error + socket_addr \<times> bytes) list \<Rightarrow> udp_socket" where
  "socket_with arrivals = \<lparr>us_socket = \<lparr>ns_addr = Inr any_addr, inbound = arrivals @- silence, outbound = [], send_faults = []\<rparr>,
     us_buffer = replicate 4 0\<rparr>"

lemmas socket_eval = udp_ops_def udp_try_recv_def recv_from_def socket_with_def Let_def

lemma delivers_none: "delivers (udp_ops idle_os) (socket_with []) [] (socket_with [])"
  by (rule dl_end) (simp add: socket_eval)

lemma delivers_two:
  "\<exists>s'. delivers (udp_ops idle_os) (socket_with [Inr (a, [x]), Inr (b, [y])]) [(a, [x]), (b, [y])] s'"
  "\<exists>s'. delivers (udp_ops idle_os) (socket_with [Inr (a, [x])]) [(a, [x])] s'"
  by (rule exI, rule dl_packet, simp add: socket_eval, (rule dl_packet, simp add: socket_eval)?,
      rule dl_end, simp add: socket_eval)+

theorem foreign_packets_ignored_witness:
  "\<exists>(c :: (udp_socket, binary_rate_limiter, noop_packet_modifier) client) s2'.
    cl_peer_address c = Some any_addr \<and> cl_should_receive c \<and>
    client_receive noop_modifier (udp_ops idle_os) (\<lambda>_. 0) (c\<lparr>cl_socket := Some (socket_with [Inr (any_addr, [1])])\<rparr>) =
    map_option (\<lambda>(result, c', clk'). (result, c'\<lparr>cl_socket := Some s2'\<rparr>, clk'))
      (client_receive noop_modifier (udp_ops idle_os) (\<lambda>_. 0)
        (c\<lparr>cl_socket := Some (socket_with [Inr (V4 (9, 9, 9, 9) 9, [7]), Inr (any_addr, [1])])\<rparr>))"
proof -
  obtain c :: "(udp_socket, binary_rate_limiter, noop_packet_modifier) client" where
    c: "cl_peer_address c = Some any_addr" "cl_should_receive c"
    using client_connects [of silence] by blast
  obtain s' where s': "delivers (udp_ops idle_os) (socket_with [Inr (V4 (9, 9, 9, 9) 9, [7]), Inr (any_addr, [1])])
      [(V4 (9, 9, 9, 9) 9, [7]), (any_addr, [1])] s'"
    using delivers_two(1) by blast
  obtain s2' where "delivers (udp_ops idle_os) (socket_with [Inr (any_addr, [1])])
      (filter (\<lambda>p. fst p = any_addr) [(V4 (9, 9, 9, 9) 9, [7]), (any_addr, [1])]) s2'"
    using delivers_two(2) [of any_addr 1] by (auto simp: any_addr_def)
  from foreign_packets_ignored [OF c s' this, of noop_modifier "\<lambda>_. 0"] c show ?thesis by blast
qed

text \<open>C37: \<open>reset\<close> is said to clear all pending events. It clears those of the client, not those of the
  connection: an event of the connection that was dropped, such as its failure, is what the next
  \<open>receive\<close> reports, as if it were about the new attempt.\<close>

theorem reset_keeps_connection_events:
  assumes "cl_socket c = Some s" "cl_connection c = Some connection" "cl_peer_address c = Some peer"
    and "cl_should_receive c" "cn_events connection = e # es" "delivers S s [] s'"
    and "set_bytes_received 0 (collector_reset (cl_stats_collector c)) = Some collector"
  shows "\<exists>c1 clk1 c2 clk2. client_reset R clk c = Some (Inr (), c1, clk1) \<and> cl_events c1 = [] \<and>
    client_receive M S clk1 c1 = Some (Inr (client_event_of e), c2, clk2)"
proof -
  obtain connection' clk1 where r: "connection_reset R clk connection = (connection', clk1)" by force
  then have e: "cn_events connection' = e # es"
    using assms(5) by (auto simp: connection_reset_def split: prod.splits)
  let ?c = "c\<lparr>cl_connection := Some connection', cl_stats_collector := collector_reset (cl_stats_collector c),
      cl_stats := stats_reset (cl_stats c), cl_events := [], cl_ticker := fst (ticker_reset clk1 (cl_ticker c))\<rparr>"
  have c1: "client_reset R clk c = Some (Inr (), ?c, clock_skip 1 clk1)"
    using assms(1,2) by (simp add: client_reset_def r ticker_reset_def)
  have "?c = ?c\<lparr>cl_socket := Some s\<rparr>" using assms(1) by (intro client.equality) simp_all
  then have "client_receive_tick M S (clock_skip 1 clk1) ?c = client_receive_tick M S (clock_skip 1 clk1) (?c\<lparr>cl_socket := Some s\<rparr>)"
    by (rule arg_cong)
  also have "\<exists>es' c2. \<dots> = Some (c2, clock_skip 2 clk1) \<and> cl_events c2 = client_event_of e # es'"
    using assms(3,7) e
    by (simp add: client_receive_tick_delivers [OF assms(6), of _ peer] connection_events_def split_beta numeral_2_eq_2)
  finally have "\<exists>es' c2. client_receive_tick M S (clock_skip 1 clk1) ?c = Some (c2, clock_skip 2 clk1) \<and>
      cl_events c2 = client_event_of e # es'" .
  then obtain c2 where "client_receive M S (clock_skip 1 clk1) ?c = Some (Inr (client_event_of e), c2, clock_skip 2 clk1)"
    using assms(1,4) by (auto simp: client_receive_def)
  moreover have "cl_events ?c = []" by simp
  ultimately show ?thesis using c1 by blast
qed

theorem reset_keeps_connection_events_witness:
  "\<exists>(c :: (udp_socket, binary_rate_limiter, noop_packet_modifier) client) c1 clk1 c2 clk2.
    client_reset binary_limiter (\<lambda>_. 0) c = Some (Inr (), c1, clk1) \<and> cl_events c1 = [] \<and>
    client_receive noop_modifier (udp_ops idle_os) clk1 c1 = Some (Inr Client_ConnectionFailed, c2, clk2)"
proof -
  obtain c clk where "client_new default_config (\<lambda>_. 0) =
      Some (c :: (udp_socket, binary_rate_limiter, noop_packet_modifier) client, clk)"
    using client_connects [of silence] by blast
  then have new: "cl_stats_collector c = collector_new default_config"
    by (auto simp: client_new_def bind_Some_iff)
  let ?d = "(fresh_connection default_config 7)\<lparr>cn_events := [FailedToConnect_Event]\<rparr>"
  let ?c = "c\<lparr>cl_socket := Some (socket_with []), cl_peer_address := Some any_addr, cl_should_receive := True,
      cl_connection := Some ?d\<rparr>"
  have d: "cn_events ?d = FailedToConnect_Event # []" by simp
  have "empty_ring (collector_reset (collector_new default_config))"
    by (simp add: empty_ring_def collector_reset_def collector_new_def new_buckets_def stats_reset_def stats_default_def)
  note idle = empty_ring_idle(1) [OF this]
  have "\<exists>c1 clk1 c2 clk2. client_reset binary_limiter (\<lambda>_. 0) ?c = Some (Inr (), c1, clk1) \<and> cl_events c1 = [] \<and>
    client_receive noop_modifier (udp_ops idle_os) clk1 c1 = Some (Inr (client_event_of FailedToConnect_Event), c2, clk2)"
    by (rule reset_keeps_connection_events [OF _ _ _ _ d delivers_none])
      (simp_all add: new idle)
  then show ?thesis unfolding client_event_of.simps by blast
qed

end
