(* ===== verification/Connection_Plain.thy ===== *)
theory Connection_Plain
  imports Connection_Delivery
begin

text \<open>
  A connection with the no-op modifier and payloads below 64 KiB: its queue stays well-formed, for what a
  lost packet brings back are the messages that were written into it, and no packet is larger than the
  configured size.
\<close>

definition plain_ok :: "('r, 'm) connection \<Rightarrow> bool" where
  "plain_ok c \<longleftrightarrow>
     send_wf (cn_queue c) \<and>
     (\<forall>p packet m. p \<in> set (sent_ack_queue c) \<longrightarrow> sp_packet p = Some packet \<longrightarrow>
        m \<in> set (messages_from_packet (drop 14 packet)) \<longrightarrow> wf_message m)"

lemma plain_ok_same:
  "plain_ok c \<Longrightarrow> send_wf (cn_queue c') \<Longrightarrow> set (sent_ack_queue c') \<subseteq> set (sent_ack_queue c) \<Longrightarrow> plain_ok c'"
  unfolding plain_ok_def by blast

lemma plain_ok_new: "plain_ok (fst (connection_new config local_addr peer_addr limiter modifier random clk))"
  by (simp add: plain_ok_def connection_new_def send_wf_new)

lemma plain_ok_send: "plain_ok c \<Longrightarrow> length payload < 65536 \<Longrightarrow> plain_ok (connection_send kind payload c)"
  by (auto simp: plain_ok_def connection_send_def send_wf_send)

lemma plain_ok_events: "plain_ok c \<Longrightarrow> plain_ok (snd (connection_events c))"
  by (simp add: plain_ok_def connection_events_def split_beta send_wf_def)

lemma fold_lost_wf:
  "send_wf q \<Longrightarrow> \<forall>payload \<in> set payloads. \<forall>m \<in> set (messages_from_packet payload). wf_message m \<Longrightarrow>
   send_wf (fold mq_lost_packet payloads q)"
  by (induction payloads arbitrary: q) (simp_all add: send_wf_lost_packet messages_from_packet_parse)

lemma plain_ok_receive:
  assumes "conn_invar ok c" "plain_ok c" "receive_packet M packet clk c = Some (accepted, c', clk')"
  shows "plain_ok c'"
proof (cases "length packet < PACKET_HEADER_SIZE \<or> \<not> fst (update_receive_state packet c)")
  case True
  obtain b c1 where u: "update_receive_state packet c = (b, c1)" by force
  have "plain_ok c1"
    using update_receive_state_fields [OF u]
    by (intro plain_ok_same [OF assms(2)]) (use assms(2) in \<open>simp_all add: plain_ok_def\<close>)
  note plain = this
  show ?thesis
    by (rule receive_packet_rejected [OF True, of M clk]) (use assms(2,3) u plain in auto)
next
  case False
  obtain replacement modifier where
    m: "pm_incoming M (drop PACKET_HEADER_SIZE packet) (cn_modifier c) = (replacement, modifier)" by force
  have len: "PACKET_HEADER_SIZE \<le> length packet" and acc: "fst (update_receive_state packet c)"
    using False by simp_all
  show ?thesis
  proof (rule receive_packet_accepted [OF assms(1) len acc m refl, of clk], goal_cases)
    case (1 c2)
    have c2: "c2 = c'" using 1(1) assms(3) by simp
    let ?lost = "lost_payloads (ack_of packet) (bitfield_of packet) (stamped packet clk c) (sent_ack_queue c)"
    have "\<forall>payload \<in> set ?lost. \<forall>m \<in> set (messages_from_packet payload). wf_message m"
    proof (intro ballI)
      fix payload m
      assume "payload \<in> set ?lost" and m: "m \<in> set (messages_from_packet payload)"
      then obtain p where p: "p \<in> set (sent_ack_queue c)" "payload = drop 14 (the (sp_packet p))"
        by (auto simp: lost_payloads_def PACKET_HEADER_SIZE_def)
      moreover obtain whole where "sp_packet p = Some whole"
        using assms(1) p(1) by (auto simp: conn_invar_def pending_ok_def)
      ultimately show "wf_message m" using assms(2) m unfolding plain_ok_def by auto
    qed
    then have "send_wf (cn_queue c')"
      using assms(2) unfolding c2 [symmetric] 1(2)
      by (simp add: send_wf_receive_packet fold_lost_wf plain_ok_def)
    then show ?thesis
      by (rule plain_ok_same [OF assms(2)]) (use 1(4) c2 in auto)
  qed
qed

lemma write_packet_plain:
  assumes "conn_invar ok c" "send_wf (cn_queue c)"
  obtains body queue where "write_packet c = Some (packet_header c @ body, queue)" "send_wf queue"
    "length body \<le> packet_max_size (cn_config c) - PACKET_HEADER_SIZE"
    "\<forall>m \<in> set (messages_from_packet body). wf_message m"
proof (cases "cn_state c = Closing")
  case True
  have none: "messages_from_packet [] = []" by (simp add: messages_from_packet_parse parse.simps)
  obtain body queue where "write_packet c = Some (packet_header c @ body, queue)" "body = []" "queue = cn_queue c"
    by (rule write_packet_spec [OF assms(1)]) (use True in simp)
  with assms(2) that [of "[]" "cn_queue c"] show thesis by (simp add: none)
next
  case False
  show thesis
  proof (rule write_packet_messages [OF assms(1) False assms(2)], goal_cases)
    case (1 ms queue)
    from 1(7) have "\<forall>m \<in> set (messages_from_packet (concat (map serialize ms))). wf_message m" unfolding 1(2) .
    with that 1(1,6,8) show thesis by blast
  qed
qed

context rate_limiter_laws
begin

lemma plain_ok_send_packet:
  fixes c :: "('r, noop_packet_modifier) connection"
  assumes "conn_invar invar c" "plain_ok c"
    and "send_packet R noop_modifier S addr clk c s = Some (n, c', s', clk')"
  shows "plain_ok c' \<and> unat n \<le> packet_max_size (cn_config c)"
proof (rule send_packet_cases [OF assms(1), of clk noop_modifier S addr s])
  fix c1
  assume u: "update_send_state clk c = (False, c1, clock_skip 2 clk)"
    and "send_packet R noop_modifier S addr clk c s = Some (0, c1, s, clock_skip 2 clk)"
  with assms(3) have c1: "c1 = c'" "n = 0" by simp_all
  have "plain_ok c1" using update_send_state_fields [OF u] by (intro plain_ok_same [OF assms(2)]) (use assms(2) in \<open>simp_all add: plain_ok_def\<close>)
  then show ?thesis by (simp add: c1)
next
  fix c1 limiter clk2
  assume u: "update_send_state clk c = (True, c1, clock_skip 2 clk)"
    and invar: "conn_invar invar (limited c1 limiter)"
    and send: "send_packet R noop_modifier S addr clk c s =
       (if rl_should_send R limiter then transmit_packet noop_modifier S addr clk2 (limited c1 limiter) s
        else Some (0, limited c1 limiter, s, clk2))"
  let ?c = "limited c1 limiter"
  have config: "cn_config ?c = cn_config c"
    by (simp add: limited_fields update_send_state_fields [OF u])
  have plain: "plain_ok ?c"
    using limited_fields [of c1 limiter] update_send_state_fields [OF u]
    by (intro plain_ok_same [OF assms(2)]) (use assms(2) in \<open>simp_all add: plain_ok_def\<close>)
  show ?thesis
  proof (cases "rl_should_send R limiter")
    case False
    with send assms(3) plain show ?thesis by simp
  next
    case True
    have wf: "send_wf (cn_queue ?c)" using plain by (simp add: plain_ok_def)
    obtain body queue where w: "write_packet ?c = Some (packet_header ?c @ body, queue)" "send_wf queue"
      "length body \<le> packet_max_size (cn_config ?c) - PACKET_HEADER_SIZE"
      "\<forall>m \<in> set (messages_from_packet body). wf_message m"
      by (rule write_packet_plain [OF invar wf])
    have m: "pm_outgoing noop_modifier body (cn_modifier ?c) = (None, cn_modifier ?c)"
      by (simp add: noop_modifier_def default_outgoing_def)
    let ?wire = "packet_header ?c @ payload_after None body"
    obtain result s1 where s: "sock_send_to S ?wire addr s = (result, s1)" by force
    show ?thesis
    proof (rule transmit_packet_spec [OF invar w(1) m refl s, of clk2], goal_cases)
      case (1 c2 clk3)
      have c2: "c2 = c'" "n = word_of_nat (if isl result then 0 else length ?wire)"
        using 1(1) send True assms(3) by simp_all
      have "14 \<le> packet_max_size (cn_config c)" using assms(1) by (simp add: conn_invar_def valid_settings_def PACKET_HEADER_SIZE_def)
      then have "length ?wire \<le> packet_max_size (cn_config c)"
        using w(3) by (simp add: config PACKET_HEADER_SIZE_def)
      moreover have "unat (word_of_nat k :: u32) \<le> k" for k
        by (simp add: unat_of_nat)
      then have "unat n \<le> (if isl result then 0 else length ?wire)" unfolding c2(2) .
      ultimately have "unat n \<le> packet_max_size (cn_config c)" by (simp split: if_splits)
      moreover have "send_wf (cn_queue c2)" using w(2) by (simp add: 1(2) mq_dismiss_def send_wf_def)
      then have "plain_ok c2"
        using plain 1(6) w(4) by (auto simp: plain_ok_def split: if_splits)
      ultimately show ?thesis by (simp add: c2)
    qed
  qed
qed

end

end
