(* ===== verification/Udp_Rounds.thy ===== *)
theory Udp_Rounds
  imports Connection_Plain Connection_Properties Stats Ticker
begin

text \<open>
  What a round of a client or server needs from its parts: what a UDP socket delivers, the statistics between
  the two reports of a round, and the pacing at its end.
\<close>

subsection \<open>What a UDP socket delivers\<close>

text \<open>
  A receive loop ends at the first error, such as "would block". So the bursts of the arrivals are what lies
  between two errors. \<open>bursts_within b n\<close> says that each comes to an end and bounds its bytes by \<open>b\<close>, with \<open>n\<close>
  already received of the first. As the arrivals never end, it is coinductive.
\<close>

coinductive bursts_within :: "nat \<Rightarrow> nat \<Rightarrow> arrivals \<Rightarrow> bool" for b :: nat where
  "n + sum_list (map (length \<circ> snd) ds) \<le> b \<Longrightarrow> bursts_within b 0 as \<Longrightarrow>
   bursts_within b n (map Inr ds @- Inl e ## as)"

lemma bursts_within_Inl [simp]: "bursts_within b n (Inl e ## as) \<longleftrightarrow> n \<le> b \<and> bursts_within b 0 as"
proof
  assume "bursts_within b n (Inl e ## as)"
  then show "n \<le> b \<and> bursts_within b 0 as"
  proof cases
    case (1 ds as' e')
    then show ?thesis by (cases ds) auto
  qed
next
  assume "n \<le> b \<and> bursts_within b 0 as"
  with bursts_within.intros [of n "[]" b as e] show "bursts_within b n (Inl e ## as)" by simp
qed

lemma bursts_within_Inr [simp]: "bursts_within b n (Inr p ## as) \<longleftrightarrow> bursts_within b (n + length (snd p)) as"
proof
  assume "bursts_within b n (Inr p ## as)"
  then show "bursts_within b (n + length (snd p)) as"
  proof cases
    case (1 ds as' e)
    then obtain ds' where "ds = p # ds'" "as = map Inr ds' @- Inl e ## as'" by (cases ds) auto
    with 1 bursts_within.intros [of "n + length (snd p)" ds' b as' e] show ?thesis by (simp add: add.assoc)
  qed
next
  assume "bursts_within b (n + length (snd p)) as"
  then show "bursts_within b n (Inr p ## as)"
  proof cases
    case (1 ds as' e)
    with bursts_within.intros [of n "p # ds" b as' e] show ?thesis by (simp add: add.assoc)
  qed
qed

lemma bursts_within_silence [simp]: "bursts_within b n silence \<longleftrightarrow> n \<le> b"
proof -
  have unfold: "silence = Inl WouldBlock ## silence" by (rule stream.expand) simp
  have "bursts_within b 0 silence"
  proof (rule bursts_within.coinduct [of "\<lambda>n as. n = 0 \<and> as = silence"], goal_cases)
    case (2 n as)
    have "silence = map Inr [] @- Inl WouldBlock ## silence" by (subst unfold) simp
    with 2 show ?case by (intro exI [of _ 0] exI [of _ "[]"] exI [of _ silence] exI [of _ WouldBlock]) simp
  qed simp
  then show ?thesis by (subst unfold) simp
qed

lemma bursts_within_mono:
  assumes "bursts_within b n as" "m \<le> n"
  shows "bursts_within b m as"
  using assms(1)
proof cases
  case (1 ds as' e)
  with assms(2) show ?thesis by (auto intro: bursts_within.intros)
qed

text \<open>A socket of the operating system without faults.\<close>

lemma fresh_socket_opens:
  obtains s where "udp_new (fresh_os arrivals faults) addr max_size = Inr s" "udp_local_addr s = Inr addr"
    "waiting s = arrivals" "length (us_buffer s) = max_size"
  by (simp add: udp_new_def fresh_os_def udp_local_addr_def)

lemma udp_new_buffer: "udp_new os addr max_size = Inr s \<Longrightarrow> length (us_buffer s) = max_size"
  using udp.new_capacity [of os addr max_size s] by (simp add: udp_ops_def)

definition cut_from :: "udp_socket \<Rightarrow> socket_addr \<times> bytes \<Rightarrow> bool" where
  "cut_from s p \<longleftrightarrow> (\<exists>datagram. Inr (fst p, datagram) \<in> sset (waiting s) \<and> snd p = take (length (us_buffer s)) datagram)"

lemma udp_delivers_burst:
  "waiting s = map Inr ds @- Inl e ## rest \<Longrightarrow>
   \<exists>ps s'. delivers (udp_ops os) s ps s' \<and> sum_list (map (length \<circ> snd) ps) \<le> sum_list (map (length \<circ> snd) ds) \<and>
     waiting s' = rest \<and> (\<forall>p \<in> set ps. cut_from s p) \<and> length (us_buffer s') = length (us_buffer s)"
proof (induction ds arbitrary: s)
  case Nil
  let ?s = "\<lparr>us_socket = (us_socket s)\<lparr>inbound := rest\<rparr>, us_buffer = us_buffer s\<rparr>"
  have "sock_try_recv (udp_ops os) s = (Inl Empty, ?s)" using Nil by (simp add: udp_recv_eval)
  then have "delivers (udp_ops os) s [] ?s" by (rule dl_end)
  then show ?case by (intro exI [of _ "[]"] exI [of _ ?s]) simp
next
  case (Cons p ds)
  obtain src datagram where p: "p = (src, datagram)" by force
  let ?packet = "take (length (us_buffer s)) datagram"
  let ?s = "\<lparr>us_socket = (us_socket s)\<lparr>inbound := map Inr ds @- Inl e ## rest\<rparr>,
      us_buffer = ?packet @ drop (length ?packet) (us_buffer s)\<rparr>"
  have w: "waiting s = Inr (src, datagram) ## (map Inr ds @- Inl e ## rest)" using Cons.prems by (simp add: p)
  have r: "sock_try_recv (udp_ops os) s = (Inr (src, ?packet), ?s)" by (simp add: w udp_recv_eval min_def)
  have "waiting ?s = map Inr ds @- Inl e ## rest" by simp
  from Cons.IH [OF this] obtain ps s' where d: "delivers (udp_ops os) ?s ps s'"
    "sum_list (map (length \<circ> snd) ps) \<le> sum_list (map (length \<circ> snd) ds)" "waiting s' = rest"
    "\<forall>p \<in> set ps. cut_from ?s p" "length (us_buffer s') = length (us_buffer ?s)"
    by blast
  have len: "length (us_buffer ?s) = length (us_buffer s)" by (simp add: min_def)
  have sub: "cut_from s q" if "cut_from ?s q" for q
    using that unfolding cut_from_def len by (auto simp: w)
  have "cut_from s (src, ?packet)" by (auto simp: cut_from_def w)
  then have "\<forall>q \<in> set ((src, ?packet) # ps). cut_from s q" using d(4) sub by auto
  moreover have "sum_list (map (length \<circ> snd) ((src, ?packet) # ps)) \<le> sum_list (map (length \<circ> snd) (p # ds))"
    using d(2) by (simp add: p)
  ultimately show ?case using dl_packet [OF r d(1)] d(3,5) len by metis
qed

lemma udp_delivers:
  assumes "bursts_within b n (waiting s)"
  shows "\<exists>ps s'. delivers (udp_ops os) s ps s' \<and> n + sum_list (map (length \<circ> snd) ps) \<le> b \<and>
     bursts_within b 0 (waiting s') \<and> (\<forall>p \<in> set ps. cut_from s p) \<and>
     sset (waiting s') \<subseteq> sset (waiting s) \<and> length (us_buffer s') = length (us_buffer s)"
  using assms
proof cases
  case (1 ds as e)
  from udp_delivers_burst [OF 1(1), of os] obtain ps s' where d: "delivers (udp_ops os) s ps s'"
    "sum_list (map (length \<circ> snd) ps) \<le> sum_list (map (length \<circ> snd) ds)" "waiting s' = as"
    "\<forall>p \<in> set ps. cut_from s p" "length (us_buffer s') = length (us_buffer s)"
    by blast
  moreover have "n + sum_list (map (length \<circ> snd) ps) \<le> b" using d(2) 1(2) by linarith
  moreover have "sset (waiting s') \<subseteq> sset (waiting s)" by (auto simp: d(3) 1(1))
  ultimately show ?thesis using 1(3) by (intro exI [of _ ps] exI [of _ s']) simp
qed

text \<open>Sending leaves alone what waits to be received and the buffer for it.\<close>

definition same_inbox :: "udp_socket \<Rightarrow> udp_socket \<Rightarrow> bool" where
  "same_inbox s s' \<longleftrightarrow> waiting s' = waiting s \<and> us_buffer s' = us_buffer s"

lemma same_inbox_refl [simp]: "same_inbox s s"
  by (simp add: same_inbox_def)

lemma same_inbox_trans: "same_inbox s s1 \<Longrightarrow> same_inbox s1 s2 \<Longrightarrow> same_inbox s s2"
  by (simp add: same_inbox_def)

lemma udp_send_inbox: "same_inbox s (snd (sock_send_to (udp_ops os) wire addr s))"
  by (auto simp: same_inbox_def udp_ops_def udp_send_to_def net_send_to_def
      split: list.splits option.splits prod.splits)

lemma transmit_packet_inbox:
  assumes "transmit_packet M (udp_ops os) addr clk c s = Some (n, c', s', clk')"
  shows "same_inbox s s'"
proof -
  from assms obtain wire where "s' = snd (sock_send_to (udp_ops os) wire addr s)"
    unfolding transmit_packet_def bind_Some_iff Let_def split_beta by auto
  then show ?thesis by (simp add: udp_send_inbox)
qed

context rate_limiter_laws
begin

lemma send_packet_inbox:
  assumes "conn_invar invar c" "send_packet R M (udp_ops os) addr clk c s = Some (n, c', s', clk')"
  shows "same_inbox s s'"
  by (rule send_packet_cases [OF assms(1), of clk M "udp_ops os" addr s])
    (use assms(2) in \<open>auto dest: transmit_packet_inbox [OF sym] transmit_packet_inbox split: if_splits\<close>)

lemma send_packet_waiting:
  "conn_invar invar c \<Longrightarrow> send_packet R M (udp_ops os) addr clk c s = Some (n, c', s', clk') \<Longrightarrow>
   waiting s' = waiting s"
  using send_packet_inbox unfolding same_inbox_def by blast

end

subsection \<open>The statistics between two rounds and within one\<close>

definition stats_ready :: "config \<Rightarrow> nat \<Rightarrow> stats_collector \<Rightarrow> bool" where
  "stats_ready config b s \<longleftrightarrow> st_config s = config \<and>
     (\<exists>hr ht. received.holds hr s \<and> sent.holds ht s \<and> (\<forall>v \<in> set hr \<union> set ht. v \<le> b))"

definition stats_half :: "config \<Rightarrow> nat \<Rightarrow> stats_collector \<Rightarrow> bool" where
  "stats_half config b s \<longleftrightarrow> (\<exists>s0 r. stats_ready config b s0 \<and> unat r \<le> b \<and> set_bytes_received r s0 = Some s)"

lemma stats_ready_new: "stats_ready config b (collector_new config)"
  unfolding stats_ready_def
  using received.holds_new [of config] sent.holds_new [of config]
  by (intro conjI exI [of _ "[]"]) (simp_all, simp add: collector_new_def)

lemma stats_tick:
  assumes "rates_ok (send_rate config) b" "stats_ready config b s" "unat r \<le> b" "unat t \<le> b"
  obtains s1 s2 where "set_bytes_received r s = Some s1" "set_bytes_sent t s1 = Some s2"
    "stats_ready config b (collector_tick s2)"
proof -
  obtain hr ht where h: "received.holds hr s" "sent.holds ht s" "\<forall>v \<in> set hr \<union> set ht. v \<le> b"
    "st_config s = config"
    using assms(2) by (auto simp: stats_ready_def)
  have rates: "rates_ok (send_rate (st_config s)) b" using assms(1) h(4) by simp
  show thesis
  proof (rule run_stats_tick [OF h(1,2) rates _ assms(3,4)], goal_cases)
    case (2 s1 s2)
    have "stats_ready config b (collector_tick s2)"
      unfolding stats_ready_def
      by (intro conjI exI [of _ "unat r # hr"] exI [of _ "unat t # ht"])
        (use 2 h assms(3,4) in \<open>simp_all add: collector_tick_def\<close>)
    with 2 that show thesis by blast
  qed (use h(3) in blast)
qed

lemma stats_receive:
  assumes "rates_ok (send_rate config) b" "stats_ready config b s" "unat r \<le> b"
  obtains s' where "set_bytes_received r s = Some s'" "stats_half config b s'"
  by (rule stats_tick [OF assms, of 0]) (use assms(2,3) that in \<open>auto simp: stats_half_def\<close>)

lemma stats_send:
  assumes "rates_ok (send_rate config) b" "stats_half config b s" "unat t \<le> b"
  obtains s' where "set_bytes_sent t s = Some s'" "stats_ready config b (collector_tick s')"
proof -
  obtain s0 r where "stats_ready config b s0" "unat r \<le> b" "set_bytes_received r s0 = Some s"
    using assms(2) by (auto simp: stats_half_def)
  with stats_tick [OF assms(1) this(1,2) assms(3)] that show thesis by (metis option.inject)
qed

subsection \<open>Pacing\<close>

text \<open>What \<open>end_tick\<close> needs to return: a recovery rate, if used, that is not negative.\<close>

definition pacing_ok :: "ticker \<Rightarrow> bool" where
  "pacing_ok t \<longleftrightarrow> (overflow_recovery t \<longrightarrow> f32_nonneg (overflow_recovery_rate t))"

lemma end_tick_returns:
  assumes "pacing_ok t"
  obtains sleep t' clk' where "(if auto then end_tick clk t else Some (0, t, clk)) = Some (sleep, t', clk')" "pacing_ok t'"
proof (cases "auto \<and> overflow_recovery t")
  case True
  let ?late = "clk 0 - tick_start t"
  obtain recovered overflow where "recover_overflow ?late (min ?late (tick_delay t)) t =
      Some (min ?late (tick_delay t) + recovered, t\<lparr>tick_overflow := overflow\<rparr>)"
    "min ?late (tick_delay t) + recovered \<le> tick_delay t"
    by (rule recover_overflow_spec [of "min ?late (tick_delay t)" ?late t])
      (use assms True in \<open>auto simp: pacing_ok_def\<close>)
  with assms True that show thesis by (simp add: end_tick_def pacing_ok_def Let_def)
next
  case False
  with assms that show thesis by (cases auto) (simp_all add: end_tick_def Let_def)
qed

end
