(* ===== verification/Client_Ticks.thy ===== *)
theory Client_Ticks
  imports Client_Properties Udp_Rounds
begin

text \<open>
  The rounds of a client over UDP with the no-op modifier: \<open>receive\<close>, until there is nothing more, then
  \<open>send\<close>. The states \<open>rested\<close>, between two rounds, and \<open>received_all\<close>, within one, under which no call panics
  or hangs, whatever arrives.
\<close>

subsection \<open>One round\<close>

lemma client_packets_run:
  assumes "conn_invar ok c" "plain_ok c"
  shows "\<exists>n' c' clk'. run_body (client_packet M peer) ps (n, c, clk) = Some (n', c', clk') \<and>
    n' \<le> n + sum_list (map (length \<circ> snd) ps) \<and> conn_invar ok c' \<and> plain_ok c' \<and> same_peer c c'"
  using assms
proof (induction ps arbitrary: n c clk)
  case (Cons p ps)
  show ?case
  proof (cases "fst p = peer")
    case True
    obtain accepted c1 clk1 where 1: "receive_packet M (snd p) clk c = Some (accepted, c1, clk1)"
      "conn_invar ok c1" "same_peer c c1"
      by (rule receive_packet_invar [OF Cons.prems(1), of M "snd p" clk])
    have "plain_ok c1" by (rule plain_ok_receive [OF Cons.prems 1(1)])
    from Cons.IH [OF 1(2) this, of "n + length (snd p)" clk1] 1 True same_peer_trans [OF 1(3)] show ?thesis
      by (fastforce simp: client_packet_def)
  next
    case False
    from Cons.IH [OF Cons.prems, of n clk] False show ?thesis by (fastforce simp: client_packet_def)
  qed
qed simp

type_synonym udp_client = "(udp_socket, binary_rate_limiter, noop_packet_modifier) client"

text \<open>A connected client, apart from its statistics.\<close>

definition running :: "config \<Rightarrow> nat \<Rightarrow> udp_client \<Rightarrow> bool" where
  "running config b c \<longleftrightarrow>
     client_ok binary_invar binary_valid c \<and> cl_config c = config \<and> pacing_ok (cl_ticker c) \<and>
     (\<exists>connection s. cl_connection c = Some connection \<and> plain_ok connection \<and>
        cl_socket c = Some s \<and> bursts_within b 0 (waiting s))"

lemma running_replace:
  assumes "running config b c" "cl_connection c = Some connection"
    and "cl_connection c' = Some connection'" "conn_invar binary_invar connection'" "same_peer connection connection'"
    and "plain_ok connection'" "cl_socket c' = Some s'" "bursts_within b 0 (waiting s')"
    and "cl_local_address c' = cl_local_address c" "cl_peer_address c' = cl_peer_address c"
    and "cl_config c' = cl_config c" "pacing_ok (cl_ticker c')"
  shows "running config b c'"
proof -
  have "client_ok binary_invar binary_valid c" using assms(1) by (simp add: running_def)
  then have "client_ok binary_invar binary_valid c'"
    by (rule client_ok_replace [OF _ assms(2-5)]) (use assms in simp_all)
  with assms show ?thesis by (simp add: running_def)
qed

lemma runningE:
  assumes "running config b c"
  obtains connection s peer where "cl_connection c = Some connection" "cl_socket c = Some s"
    "cl_peer_address c = Some peer" "conn_invar binary_invar connection" "plain_ok connection"
    "bursts_within b 0 (waiting s)" "cn_config connection = config" "pacing_ok (cl_ticker c)"
  using assms by (auto simp: running_def client_ok_def)

lemma running_events [simp]: "running config b (c\<lparr>cl_events := es\<rparr>) = running config b c"
  by (simp add: running_def)

lemma running_receive_tick:
  assumes "running config b c" "rates_ok (send_rate config) b" "stats_ready config b (cl_stats_collector c)"
  obtains c' clk' where "client_receive_tick noop_modifier (udp_ops os) clk c = Some (c', clk')"
    "running config b c'" "stats_half config b (cl_stats_collector c')" "\<not> cl_should_receive c'"
proof -
  obtain connection s peer where r: "cl_connection c = Some connection" "cl_socket c = Some s"
    "cl_peer_address c = Some peer" "conn_invar binary_invar connection" "plain_ok connection"
    "bursts_within b 0 (waiting s)" "cn_config connection = config" "pacing_ok (cl_ticker c)"
    by (rule runningE [OF assms(1)])
  obtain ps s' where d: "delivers (udp_ops os) s ps s'" "sum_list (map (length \<circ> snd) ps) \<le> b"
    "bursts_within b 0 (waiting s')"
    using udp_delivers [OF r(6), of os] by auto
  obtain n connection1 clk1 where l:
    "run_body (client_packet noop_modifier peer) ps (0, connection, clock_skip 1 clk) = Some (n, connection1, clk1)"
    "n \<le> b" "conn_invar binary_invar connection1" "plain_ok connection1" "same_peer connection connection1"
    using client_packets_run [OF r(4,5), of noop_modifier peer ps 0 "clock_skip 1 clk"] d(2) by auto
  have "unat (word_of_nat n :: u32) \<le> b"
    using l(2) by (metis le_trans unat_of_nat mod_less_eq_dividend)
  then obtain collector where st: "set_bytes_received (word_of_nat n) (cl_stats_collector c) = Some collector"
    "stats_half config b collector"
    by (rule stats_receive [OF assms(2,3)])
  have "c = c\<lparr>cl_socket := Some s\<rparr>" using r(2) by (intro client.equality) simp_all
  then have "client_receive_tick noop_modifier (udp_ops os) clk c =
      client_receive_tick noop_modifier (udp_ops os) clk (c\<lparr>cl_socket := Some s\<rparr>)"
    by (rule arg_cong)
  with client_receive_tick_delivers [OF d(1) r(3), of noop_modifier clk]
  have "client_receive_tick noop_modifier (udp_ops os) clk c = Some (c\<lparr>cl_ticker := fst (begin_tick clk (cl_ticker c)), cl_socket := Some s',
      cl_connection := Some (snd (connection_events connection1)), cl_stats_collector := collector,
      cl_events := cl_events c @ map client_event_of (fst (connection_events connection1)),
      cl_should_receive := False\<rparr>, clk1)"
    (is "_ = Some (?c, _)") using r(1) l(1) st(1) by simp
  then show thesis
  proof (rule that)
    show "running config b ?c"
    proof (rule running_replace [OF assms(1) r(1)])
      show "conn_invar binary_invar (snd (connection_events connection1))" "plain_ok (snd (connection_events connection1))"
        using l(3,4) by (simp_all add: conn_invar_simple_ops plain_ok_events)
      show "same_peer connection (snd (connection_events connection1))"
        by (rule same_peer_trans [OF l(5) same_peer_simple_ops(2)])
      show "pacing_ok (cl_ticker ?c)" using r(8) by (simp add: pacing_ok_def begin_tick_def)
    qed (use d(3) in simp_all)
  qed (use st(2) in simp_all)
qed

text \<open>Within a round: everything has been received, nothing sent.\<close>

definition received_all :: "config \<Rightarrow> nat \<Rightarrow> udp_client \<Rightarrow> bool" where
  "received_all config b c \<longleftrightarrow>
     running config b c \<and> stats_half config b (cl_stats_collector c) \<and> \<not> cl_should_receive c"

text \<open>Between rounds.\<close>

definition rested :: "config \<Rightarrow> nat \<Rightarrow> udp_client \<Rightarrow> bool" where
  "rested config b c \<longleftrightarrow>
     running config b c \<and> stats_ready config b (cl_stats_collector c) \<and> cl_should_receive c"

lemma received_all_events [simp]: "received_all config b (c\<lparr>cl_events := es\<rparr>) = received_all config b c"
  by (simp add: received_all_def)

lemma client_receive_ready:
  "cl_socket c \<noteq> None \<Longrightarrow>
   (if cl_should_receive c then client_receive_tick M S clk c else Some (c, clk)) = Some (c1, clk1) \<Longrightarrow>
   \<exists>result es. client_receive M S clk c = Some (result, c1\<lparr>cl_events := es\<rparr>, clk1)"
  by (cases "cl_events c1") (auto simp: client_receive_def intro!: client.equality)

lemma rested_receive:
  assumes "rested config b c" "rates_ok (send_rate config) b"
  obtains result c' clk' where "client_receive noop_modifier (udp_ops os) clk c = Some (result, c', clk')"
    "received_all config b c'"
proof -
  have run: "running config b c" and st: "stats_ready config b (cl_stats_collector c)" and go: "cl_should_receive c"
    using assms(1) by (simp_all add: rested_def)
  obtain c1 clk1 where 1: "client_receive_tick noop_modifier (udp_ops os) clk c = Some (c1, clk1)"
    "received_all config b c1"
    using running_receive_tick [OF run assms(2) st, of os clk] unfolding received_all_def by metis
  have "cl_socket c \<noteq> None" using run by (auto simp: running_def)
  with client_receive_ready [of c noop_modifier "udp_ops os" clk c1 clk1] 1 go that show thesis by auto
qed

lemma received_all_receive:
  assumes "received_all config b c"
  shows "client_receive noop_modifier (udp_ops os) clk c = Some (case cl_events c of
    e # es \<Rightarrow> (Inr e, c\<lparr>cl_events := es\<rparr>, clk) | [] \<Rightarrow> (Inl Empty, c, clk))"
  using assms by (auto simp: received_all_def running_def client_receive_def)

lemma received_all_message:
  assumes "received_all config b c" "length payload < 65536"
  shows "received_all config b (snd (client_connection (\<lambda>x. ((), connection_send kind payload x)) c))"
proof -
  have run: "running config b c" using assms(1) by (simp add: received_all_def)
  obtain connection s peer where r: "cl_connection c = Some connection" "cl_socket c = Some s"
    "cl_peer_address c = Some peer" "conn_invar binary_invar connection" "plain_ok connection"
    "bursts_within b 0 (waiting s)" "cn_config connection = config" "pacing_ok (cl_ticker c)"
    by (rule runningE [OF run])
  let ?connection = "connection_send kind payload connection"
  have m: "conn_invar binary_invar ?connection" "plain_ok ?connection" "same_peer connection ?connection"
    using r(4,5) assms(2) by (simp_all add: conn_invar_simple_ops plain_ok_send same_peer_simple_ops)
  have "running config b (c\<lparr>cl_connection := Some ?connection\<rparr>)"
    by (rule running_replace [OF run r(1) _ m(1,3,2)]) (use r in simp_all)
  then show ?thesis using assms(1) by (simp add: received_all_def client_connection_def r(1))
qed

lemma received_all_send:
  assumes "received_all config b c" "rates_ok (send_rate config) b" "packet_max_size config \<le> b"
  obtains sleep c' clk' where
    "client_send binary_limiter noop_modifier (udp_ops os) auto clk c = Some (Inr (), sleep, c', clk')"
    "rested config b c'"
proof -
  have run: "running config b c" and st: "stats_half config b (cl_stats_collector c)"
    using assms(1) by (simp_all add: received_all_def)
  obtain connection s peer where r: "cl_connection c = Some connection" "cl_socket c = Some s"
    "cl_peer_address c = Some peer" "conn_invar binary_invar connection" "plain_ok connection"
    "bursts_within b 0 (waiting s)" "cn_config connection = config" "pacing_ok (cl_ticker c)"
    by (rule runningE [OF run])
  obtain n connection1 s1 clk1 where p:
    "send_packet binary_limiter noop_modifier (udp_ops os) peer clk connection s = Some (n, connection1, s1, clk1)"
    "conn_invar binary_invar connection1" "same_peer connection connection1"
    by (rule binary.send_packet_invar [OF r(4), of noop_modifier "udp_ops os" peer clk s])
  note plain = binary.plain_ok_send_packet [OF r(4,5) p(1)]
  have "unat n \<le> b" using plain assms(3) r(7) by simp
  then obtain collector where st1: "set_bytes_sent n (cl_stats_collector c) = Some collector"
    "stats_ready config b (collector_tick collector)"
    by (rule stats_send [OF assms(2) st])
  obtain sleep t clk2 where e:
    "(if auto then end_tick clk1 (cl_ticker c) else Some (0, cl_ticker c, clk1)) = Some (sleep, t, clk2)" "pacing_ok t"
    by (rule end_tick_returns [OF r(8), of auto clk1])
  let ?c = "c\<lparr>cl_socket := Some s1, cl_connection := Some connection1, cl_stats_collector := collector_tick collector,
      cl_stats := average (collector_tick collector), cl_should_receive := True, cl_ticker := t\<rparr>"
  have "client_send binary_limiter noop_modifier (udp_ops os) auto clk c = Some (Inr (), sleep, ?c, clk2)"
    using e(1) by (cases auto) (simp_all add: client_send_def Let_def r p(1) st1(1))
  moreover have "running config b ?c"
    by (rule running_replace [where s' = s1, OF run r(1) _ p(2,3) conjunct1 [OF plain]])
      (use e(2) r(6) binary.send_packet_waiting [OF r(4) p(1)] in simp_all)
  then have "rested config b ?c" using st1(2) by (simp add: rested_def)
  ultimately show thesis by (rule that)
qed

lemma connected_rested:
  assumes "valid_settings config" "binary_valid config"
    and "tick_overflow_recovery config \<longrightarrow> f32_nonneg (tick_overflow_recovery_rate config)"
    and "bursts_within b 0 (waiting s0)" "client_new config clk = Some (c0, clk0)"
    and "client_connect binary_limiter noop_modifier (udp_ops os) resolve random clk1 c0 = Some (Inr (), c, clk2)"
    and socket: "udp_new os wildcard_addr (packet_max_size config) = Inr s0"
  shows "rested config b c"
proof -
  have new: "cl_config c0 = config" "cl_socket c0 = None" "cl_stats_collector c0 = collector_new config" "pacing_ok (cl_ticker c0)"
    "client_ok binary_invar binary_valid c0"
    using assms(1-3,5) by (auto simp: client_new_def ticker_new_def bind_Some_iff client_ok_def pacing_ok_def)
  have ok: "client_ok binary_invar binary_valid c"
    by (rule client_connect_keeps [OF new(5) assms(6)]) (use binary.new_invar in blast)
  obtain addrs where a: "resolve = Inr addrs"
    using assms(6) new(1,2) socket by (cases resolve) (auto simp: client_connect_def udp_ops_def)
  obtain peer where p: "checked_nth addrs 0 = Some peer"
    using assms(6) new(1,2) a socket
    by (cases "checked_nth addrs 0") (auto simp: client_connect_def udp_ops_def)
  from assms(6) new(2) a p obtain limiter clk3 local_addr where
    c: "cl_config c = cl_config c0" "cl_ticker c = cl_ticker c0" "cl_stats_collector c = cl_stats_collector c0"
      "cl_should_receive c"
      "cl_connection c = Some (fst (connection_new config local_addr peer limiter (pm_new noop_modifier config) random clk3))"
      "cl_socket c = Some s0"
    by (cases "udp_local_addr s0") (auto simp: client_connect_def udp_ops_def split_beta new(1) socket)
  have "running config b c"
    unfolding running_def using ok c new assms(4) plain_ok_new by auto
  then show ?thesis using c(3,4) new(3) stats_ready_new by (simp add: rested_def)
qed

end
