(* ===== verification/Example_Client.thy ===== *)
theory Example_Client
  imports Client_Ticks
begin

text \<open>
  The example program \<open>examples/client.rs\<close>: connect to a server on the local host and, round by round, handle
  what arrives, queue a greeting and send. It is the library's client put to work, with the types it picks:
  UDP, the binary limiter, the no-op modifier. What it prints is part of the result. Theorems: it never
  panics, and without an answer it never ends.
\<close>

datatype client_line =
    Connecting_Line
  | Established_Line socket_addr u32
  | Message_Line socket_addr u32 bytes
  | Disconnected_Line socket_addr u32
  | Disconnecting_Line

text \<open>\<open>client.connection().unwrap()\<close> and what is printed of the connection.\<close>

definition client_peer :: "udp_client \<Rightarrow> ((socket_addr \<times> u32) \<times> udp_client) option" where
  "client_peer c =
     (case client_connection (\<lambda>x. ((conn_peer_addr x, rtt x), x)) c of
        (Inr peer, c) \<Rightarrow> Some (peer, c)
      | (Inl _, _) \<Rightarrow> None)"

text \<open>The \<open>match\<close> on an event; the first result is whether the main loop ends.\<close>

fun client_handle :: "client_event \<Rightarrow> udp_client \<Rightarrow> (bool \<times> client_line list \<times> udp_client) option" where
  "client_handle Client_Connection c =
     do { ((addr, ms), c) \<leftarrow> client_peer c; Some (False, [Established_Line addr ms], c) }"
| "client_handle (Client_Message message) c =
     do { ((addr, ms), c) \<leftarrow> client_peer c; Some (False, [Message_Line addr ms message], c) }"
| "client_handle (Client_ConnectionClosed _) c =
     do { ((addr, ms), c) \<leftarrow> client_peer c; Some (True, [Disconnected_Line addr ms], c) }"
| "client_handle (Client_ConnectionLost _) c =
     do { ((addr, ms), c) \<leftarrow> client_peer c; Some (True, [Disconnected_Line addr ms], c) }"
| "client_handle _ c = Some (False, [], c)"

text \<open>\<open>while let Ok(event) = client.receive() { ... }\<close>, with what was printed so far.\<close>

partial_function (option) client_events ::
  "udp_socket socket \<Rightarrow> client_line list \<Rightarrow> clock \<Rightarrow> udp_client \<Rightarrow> (bool \<times> client_line list \<times> udp_client \<times> clock) option" where
  "client_events S out clk c =
     (case client_receive noop_modifier S clk c of
        None \<Rightarrow> None
      | Some (Inl _, c, clk) \<Rightarrow> Some (False, out, c, clk)
      | Some (Inr e, c, clk) \<Rightarrow>
          (case client_handle e c of
             None \<Rightarrow> None
           | Some (stop, printed, c) \<Rightarrow>
               if stop then Some (True, out @ printed, c, clk) else client_events S (out @ printed) clk c))"

definition hello_client :: bytes where
  "hello_client = map of_char ''Hello from Client''"

text \<open>One pass of the main loop.\<close>

definition client_pass ::
  "udp_socket socket \<Rightarrow> client_line list \<Rightarrow> clock \<Rightarrow> udp_client \<Rightarrow> (bool \<times> client_line list \<times> udp_client \<times> clock) option" where
  "client_pass S out clk c =
     do {
       (stop, out, c, clk) \<leftarrow> client_events S out clk c;
       if stop then Some (True, out, c, clk)
       else
         do {
           let c = snd (client_connection (\<lambda>x. ((), connection_send Instant hello_client x)) c);
           (_, _, c, clk) \<leftarrow> client_send binary_limiter noop_modifier S True clk c;
           Some (False, out, c, clk)
         }
     }"

text \<open>At most \<open>n\<close> passes of the main loop; the first result is whether it has ended.\<close>

fun client_loop ::
  "udp_socket socket \<Rightarrow> nat \<Rightarrow> client_line list \<Rightarrow> clock \<Rightarrow> udp_client \<Rightarrow>
     (bool \<times> client_line list \<times> udp_client \<times> clock) option" where
  "client_loop S 0 out clk c = Some (False, out, c, clk)"
| "client_loop S (Suc n) out clk c =
     do {
       (stop, out, c, clk) \<leftarrow> client_pass S out clk c;
       if stop then Some (True, out, c, clk) else client_loop S n out clk c
     }"

text \<open>The address \<open>127.0.0.1:1234\<close>, and the program for a configuration.\<close>

definition example_addr :: socket_addr where
  "example_addr = V4 (127, 0, 0, 1) 1234"

definition client_program ::
  "config \<Rightarrow> udp_socket socket \<Rightarrow> u32 \<Rightarrow> nat \<Rightarrow> clock \<Rightarrow> (bool \<times> client_line list \<times> udp_client) option" where
  "client_program config S random n clk =
     do {
       (c, clk) \<leftarrow> client_new config clk;
       (result, c, clk) \<leftarrow> client_connect binary_limiter noop_modifier S (Inr [example_addr]) random clk c;
       if isl result then None
       else
         do {
           (stop, out, c, clk) \<leftarrow> client_loop S n [Connecting_Line] clk c;
           if stop then
             do {
               (_, c, _) \<leftarrow> client_disconnect binary_limiter clk c;
               Some (True, out @ [Disconnecting_Line], c)
             }
           else Some (False, out, c)
         }
     }"

definition client_main :: "udp_socket socket \<Rightarrow> u32 \<Rightarrow> nat \<Rightarrow> clock \<Rightarrow> (bool \<times> client_line list \<times> udp_client) option" where
  "client_main = client_program default_config"

subsection \<open>It never panics\<close>

lemma client_peer_connected:
  "cl_connection c = Some connection \<Longrightarrow> client_peer c = Some ((conn_peer_addr connection, rtt connection), c)"
  by (auto simp: client_peer_def client_connection_def intro!: client.equality)

lemma client_handle_connected:
  "cl_connection c = Some connection \<Longrightarrow> \<exists>stop printed. client_handle e c = Some (stop, printed, c)"
  by (cases e) (simp_all add: client_peer_connected ex_bool_eq)

lemma received_all_connected: "received_all config b c \<Longrightarrow> \<exists>connection. cl_connection c = Some connection"
  by (auto simp: received_all_def running_def)

lemma client_events_return:
  "received_all config b c \<Longrightarrow>
   \<exists>stop out' c'. client_events (udp_ops os) out clk c = Some (stop, out', c', clk) \<and> received_all config b c'"
proof (induction "cl_events c" arbitrary: c out)
  case Nil
  then show ?case by (subst client_events.simps) (simp add: received_all_receive ex_bool_eq flip: Nil(1))
next
  case (Cons e es)
  let ?c = "c\<lparr>cl_events := es\<rparr>"
  have r: "client_receive noop_modifier (udp_ops os) clk c = Some (Inr e, ?c, clk)"
    using received_all_receive [OF Cons.prems, of os clk] by (simp flip: Cons(2))
  obtain connection where "cl_connection ?c = Some connection" using received_all_connected [OF Cons.prems] by auto
  then obtain stop printed where h: "client_handle e ?c = Some (stop, printed, ?c)"
    using client_handle_connected by blast
  from Cons.hyps(1) [of ?c "out @ printed"] Cons.prems show ?case
    by (subst client_events.simps) (simp add: r h ex_bool_eq)
qed

lemma client_pass_returns:
  assumes "rested config b c" "rates_ok (send_rate config) b" "packet_max_size config \<le> b"
  shows "\<exists>stop out' c' clk'. client_pass (udp_ops os) out clk c = Some (stop, out', c', clk') \<and>
    cl_socket c' \<noteq> None \<and> cl_connection c' \<noteq> None \<and> (\<not> stop \<longrightarrow> rested config b c')"
proof -
  have "\<exists>stop out1 c1 clk1. client_events (udp_ops os) out clk c = Some (stop, out1, c1, clk1) \<and>
      received_all config b c1"
  proof -
    obtain result c1 clk1 where r: "client_receive noop_modifier (udp_ops os) clk c = Some (result, c1, clk1)"
      "received_all config b c1"
      by (rule rested_receive [OF assms(1,2)])
    show ?thesis
    proof (cases result)
      case (Inl e)
      with r show ?thesis by (subst client_events.simps) (simp add: ex_bool_eq)
    next
      case (Inr e)
      obtain connection where "cl_connection c1 = Some connection" using received_all_connected [OF r(2)] by auto
      then obtain stop printed where h: "client_handle e c1 = Some (stop, printed, c1)"
        using client_handle_connected by blast
      from client_events_return [OF r(2), of os "out @ printed" clk1] r(2) show ?thesis
        by (subst client_events.simps) (auto simp: r(1) h Inr)
    qed
  qed
  then obtain stop out1 c1 clk1 where 1: "client_events (udp_ops os) out clk c = Some (stop, out1, c1, clk1)"
    "received_all config b c1"
    by blast
  show ?thesis
  proof (cases stop)
    case True
    with 1 show ?thesis by (auto simp: client_pass_def received_all_def running_def)
  next
    case False
    have "length hello_client < 65536" by (simp add: hello_client_def)
    from received_all_message [OF 1(2) this] have
      "received_all config b (snd (client_connection (\<lambda>x. ((), connection_send Instant hello_client x)) c1))" .
    then obtain sleep c2 clk2 where
      "client_send binary_limiter noop_modifier (udp_ops os) True clk1
         (snd (client_connection (\<lambda>x. ((), connection_send Instant hello_client x)) c1)) = Some (Inr (), sleep, c2, clk2)"
      "rested config b c2"
      by (rule received_all_send [OF _ assms(2,3)])
    with 1 False show ?thesis by (auto simp: client_pass_def Let_def rested_def running_def)
  qed
qed

lemma client_loop_returns:
  assumes "rested config b c" "rates_ok (send_rate config) b" "packet_max_size config \<le> b"
  shows "\<exists>stop out' c' clk'. client_loop (udp_ops os) n out clk c = Some (stop, out', c', clk') \<and>
    (stop \<longrightarrow> cl_socket c' \<noteq> None \<and> cl_connection c' \<noteq> None)"
  using assms(1)
proof (induction n arbitrary: out clk c)
  case (Suc n)
  from client_pass_returns [OF Suc.prems assms(2,3), of os out clk] obtain stop out1 c1 clk1 where
    1: "client_pass (udp_ops os) out clk c = Some (stop, out1, c1, clk1)"
    "cl_socket c1 \<noteq> None" "cl_connection c1 \<noteq> None" "\<not> stop \<longrightarrow> rested config b c1"
    by blast
  show ?case
  proof (cases stop)
    case False
    with 1(4) Suc.IH [of c1 out1 clk1] show ?thesis by (simp add: 1(1) False)
  qed (use 1 in \<open>simp add: ex_bool_eq\<close>)
qed (simp add: ex_bool_eq)

lemma example_connects:
  assumes "valid_settings config" "binary_valid config"
    and "tick_overflow_recovery config \<longrightarrow> f32_nonneg (tick_overflow_recovery_rate config)"
    and socket: "udp_new os wildcard_addr (packet_max_size config) = Inr s" "udp_local_addr s = Inr local_addr"
    and "bursts_within b 0 (waiting s)"
  obtains c0 clk0 c clk1 connection where "client_new config clk = Some (c0, clk0)"
    "client_connect binary_limiter noop_modifier (udp_ops os) (Inr [example_addr]) random clk0 c0 =
       Some (Inr (), c, clk1)"
    "rested config b c" "cl_connection c = Some connection" "cn_state connection = Connecting"
    "cn_events connection = []" "recv_queue (cn_queue connection) = []" "cl_events c = []"
    "cl_peer_address c = Some example_addr"
    "cl_socket c = Some s"
proof -
  have "0 < send_rate config" using assms(1) by (simp add: valid_settings_def)
  then obtain c0 :: udp_client and clk0 where n: "client_new config clk = Some (c0, clk0)" "cl_config c0 = config"
    "cl_socket c0 = None" "cl_events c0 = []"
    by (auto simp: client_new_def ticker_new_def checked_div_def)
  obtain limiter clk1 where l: "rl_new binary_limiter config clk0 = (limiter, clk1)" by force
  obtain connection clk2 where
    d: "connection_new config local_addr example_addr limiter (pm_new noop_modifier config) random clk1 = (connection, clk2)"
    by force
  let ?c = "c0\<lparr>cl_socket := Some s, cl_peer_address := Some example_addr, cl_local_address := Some local_addr,
      cl_connection := Some connection, cl_should_receive := True\<rparr>"
  have c: "client_connect binary_limiter noop_modifier (udp_ops os) (Inr [example_addr]) random clk0 c0 =
      Some (Inr (), ?c, clk2)"
    by (simp add: client_connect_def n udp_ops_def socket l [simplified] d)
  have "rested config b ?c" by (rule connected_rested [OF assms(1-3,6) n(1) c socket(1)])
  with that [OF n(1) c] d n(4) show thesis by (auto simp: connection_new_def mq_new_def)
qed

text \<open>C9: The example client never panics once it has its socket. Whatever datagrams arrive and whatever sends fail, at
  any clock, any number of passes of its main loop returns: no \<open>unwrap\<close> fails, no arithmetic overflows,
  and no inner loop runs for ever. If the main loop has ended, the client has freed its socket and its connection. The
  assumptions are on the settings, which the default meets; that the operating system binds the socket and knows
  its address, for otherwise the \<open>expect\<close> of the source panics (\<open>client_program_needs_socket\<close>); and that every
  burst of arrivals comes to an end, and neither it nor a packet is so large that a window of the statistics could
  pass 4 GiB.\<close>

theorem client_program_never_panics:
  assumes "valid_settings config" "binary_valid config"
    and "tick_overflow_recovery config \<longrightarrow> f32_nonneg (tick_overflow_recovery_rate config)"
    and "rates_ok (send_rate config) b" "packet_max_size config \<le> b"
    and "udp_new os wildcard_addr (packet_max_size config) = Inr s" "udp_local_addr s = Inr local_addr"
    and "bursts_within b 0 (waiting s)"
  shows "\<exists>ended out c. client_program config (udp_ops os) random n clk = Some (ended, out, c) \<and>
    (ended \<longrightarrow> cl_socket c = None \<and> cl_connection c = None)"
proof (rule example_connects [OF assms(1-3,6-8), of clk random])
  fix c0 clk0 c clk1
  assume c: "client_new config clk = Some (c0, clk0)"
    "client_connect binary_limiter noop_modifier (udp_ops os) (Inr [example_addr]) random clk0 c0 =
       Some (Inr (), c, clk1)" "rested config b c"
  obtain stop out c' clk' where l:
    "client_loop (udp_ops os) n [Connecting_Line] clk1 c = Some (stop, out, c', clk')"
    "stop \<longrightarrow> cl_socket c' \<noteq> None \<and> cl_connection c' \<noteq> None"
    using client_loop_returns [OF c(3) assms(4,5)] by blast
  show ?thesis
  proof (cases stop)
    case True
    with l(2) obtain s connection where "cl_socket c' = Some s" "cl_connection c' = Some connection" by auto
    then show ?thesis
      using True by (simp add: client_program_def c l(1) client_disconnect_def client_reset_def split_beta ex_bool_eq)
  qed (use l(1) in \<open>simp add: client_program_def c ex_bool_eq\<close>)
qed

text \<open>Two datagrams, then silence; the second packet cannot be sent; a thousand passes.\<close>

theorem client_program_never_panics_witness:
  "\<exists>ended out c. client_main (udp_ops (fresh_os
      (Inr (example_addr, [1, 2, 3, 4, 0, 0, 0, 9]) ## Inr (any_addr, []) ## silence) [None, Some (OtherError 5)]))
    7 1000 (\<lambda>k. k) = Some (ended, out, c)"
proof -
  let ?arrivals = "Inr (example_addr, [1, 2, 3, 4, 0, 0, 0, 9]) ## Inr (any_addr, []) ## silence :: arrivals"
  let ?os = "fresh_os ?arrivals [None, Some (OtherError 5)]"
  obtain s where s: "udp_new ?os wildcard_addr (packet_max_size default_config) = Inr s" "udp_local_addr s = Inr wildcard_addr"
    "waiting s = ?arrivals"
    by (rule fresh_socket_opens)
  have "bursts_within 2000 0 (waiting s)" by (simp add: s(3))
  from client_program_never_panics [OF _ _ _ _ _ s(1,2) this, of 7 1000 "\<lambda>k. k"]
  show ?thesis by (auto simp: client_main_def rates_ok_def)
qed

text \<open>Without a socket the \<open>expect\<close> on the result of \<open>connect\<close> panics.\<close>

lemma client_program_needs_socket:
  assumes "udp_new os wildcard_addr (packet_max_size config) = Inl e \<or>
    udp_new os wildcard_addr (packet_max_size config) = Inr s \<and> udp_local_addr s = Inl e"
  shows "client_program config (udp_ops os) random n clk = None"
proof -
  have "cl_socket c = None \<and> cl_config c = config" if "client_new config clk = Some (c, clk0)" for c :: udp_client and clk0
    using that by (auto simp: client_new_def bind_Some_iff split_beta)
  then show ?thesis
    using assms by (cases "client_new config clk :: (udp_client \<times> clock) option")
      (auto simp: client_program_def client_connect_def udp_ops_def)
qed

subsection \<open>Without an answer\<close>

text \<open>A client that has not heard of its server, and the only events it can have.\<close>

definition unanswered_event :: "client_event \<Rightarrow> bool" where
  "unanswered_event e \<longleftrightarrow> e = Client_ConnectionFailed \<or> e \<in> range Client_ConnectionCongestionStateChanged"

definition unanswered_connection :: "('r, 'm) connection \<Rightarrow> bool" where
  "unanswered_connection d \<longleftrightarrow>
     (cn_state d = Connecting \<or> cn_state d = FailedToConnect) \<and> recv_queue (cn_queue d) = [] \<and>
     set (cn_events d) \<subseteq> insert FailedToConnect_Event (range CongestionStateChanged_Event)"

definition unanswered :: "udp_client \<Rightarrow> bool" where
  "unanswered c \<longleftrightarrow> cl_peer_address c = Some example_addr \<and>
     (\<exists>connection. cl_connection c = Some connection \<and> unanswered_connection connection) \<and>
     (\<exists>s. cl_socket c = Some s \<and> (\<forall>datagram. Inr (example_addr, datagram) \<notin> sset (waiting s))) \<and>
     (\<forall>e \<in> set (cl_events c). unanswered_event e)"

lemma unanswered_handle: "unanswered_event e \<Longrightarrow> client_handle e c = Some (False, [], c)"
  by (auto simp: unanswered_event_def)

lemma unanswered_drain:
  "unanswered_connection d \<Longrightarrow> unanswered_connection (snd (connection_events d)) \<and>
     (\<forall>e \<in> set (fst (connection_events d)). unanswered_event (client_event_of e))"
  by (auto simp: unanswered_connection_def connection_events_def drain_received.simps message_iterator_next_def
      unanswered_event_def)

lemma transmit_packet_quiet:
  assumes "transmit_packet M S addr clk c s = Some (n, c', s', clk')"
  shows "cn_state c' = cn_state c \<and> cn_events c' = cn_events c \<and> recv_queue (cn_queue c') = []"
  using assms by (auto simp: transmit_packet_def bind_Some_iff Let_def split_beta mq_dismiss_def split: sum.splits)

lemma update_send_unanswered:
  "update_send_state clk c = (go, c', clk') \<Longrightarrow> unanswered_connection c \<Longrightarrow> unanswered_connection c'"
  by (auto simp: update_send_state_def unanswered_connection_def push_event_def Let_def
      split: if_splits connection_state.splits)

lemma send_packet_unanswered:
  assumes "conn_invar binary_invar c" "unanswered_connection c"
    and "send_packet binary_limiter M S addr clk c s = Some (n, c', s', clk')"
  shows "unanswered_connection c'"
proof (rule binary.send_packet_cases [OF assms(1), of clk M S addr s])
  fix c1
  assume "update_send_state clk c = (False, c1, clock_skip 2 clk)"
    "send_packet binary_limiter M S addr clk c s = Some (0, c1, s, clock_skip 2 clk)"
  with assms update_send_unanswered show ?thesis by auto
next
  fix c1 limiter clk2
  assume u: "update_send_state clk c = (True, c1, clock_skip 2 clk)"
    and send: "send_packet binary_limiter M S addr clk c s =
      (if rl_should_send binary_limiter limiter then transmit_packet M S addr clk2 (binary.limited c1 limiter) s
       else Some (0, binary.limited c1 limiter, s, clk2))"
  have "unanswered_connection (binary.limited c1 limiter)"
    using update_send_unanswered [OF u assms(2)] binary.limited_fields [of c1 limiter]
    by (auto simp: unanswered_connection_def)
  with send assms(3) show ?thesis
    by (auto simp: unanswered_connection_def dest!: transmit_packet_quiet [OF sym] split: if_splits)
qed

lemma unanswered_receive_tick:
  assumes "rested config b c" "unanswered c"
    and "client_receive_tick noop_modifier (udp_ops os) clk c = Some (c', clk')"
  shows "unanswered c'"
proof -
  obtain connection s where c: "cl_connection c = Some connection" "unanswered_connection connection"
    "cl_socket c = Some s" "\<forall>datagram. Inr (example_addr, datagram) \<notin> sset (waiting s)"
    "cl_peer_address c = Some example_addr"
    using assms(2) by (auto simp: unanswered_def)
  have "bursts_within b 0 (waiting s)" using assms(1) c(3) by (auto simp: rested_def running_def)
  from udp_delivers [OF this, of os] obtain ps s' where d: "delivers (udp_ops os) s ps s'"
    "\<forall>p \<in> set ps. cut_from s p" "sset (waiting s') \<subseteq> sset (waiting s)"
    by blast
  have "filter (\<lambda>p. fst p = example_addr) ps = []"
    using d(2) c(4) by (auto simp: filter_empty_conv cut_from_def)
  with run_body_client [of noop_modifier example_addr ps]
  have "run_body (client_packet noop_modifier example_addr) ps a = Some a" for a :: "nat \<times> (binary_rate_limiter, noop_packet_modifier) connection \<times> clock"
    by (metis run_body.simps(1))
  moreover have same: "c = c\<lparr>cl_socket := Some s\<rparr>" using c(3) by (intro client.equality) simp_all
  have "client_receive_tick noop_modifier (udp_ops os) clk (c\<lparr>cl_socket := Some s\<rparr>) = Some (c', clk')"
    using assms(3) unfolding same [symmetric] .
  ultimately obtain t collector where "c' = c\<lparr>cl_ticker := t, cl_socket := Some s', cl_connection := Some (snd (connection_events connection)),
      cl_stats_collector := collector,
      cl_events := cl_events c @ map client_event_of (fst (connection_events connection)), cl_should_receive := False\<rparr>"
    unfolding client_receive_tick_delivers [OF d(1) c(5)] by (auto simp: c(1) bind_Some_iff)
  with assms(2) c d(3) unanswered_drain [OF c(2)] show ?thesis by (auto simp: unanswered_def)
qed

lemma unanswered_pop:
  assumes "unanswered c" "(case cl_events c of e # es \<Rightarrow> (Inr e, c\<lparr>cl_events := es\<rparr>, clk) | [] \<Rightarrow> (Inl Empty, c, clk)) = (result, c', clk')"
  shows "unanswered c'" "\<And>e. result = Inr e \<Longrightarrow> unanswered_event e"
  using assms by (auto simp: unanswered_def split: list.splits)

lemma unanswered_receive:
  assumes "rested config b c" "unanswered c"
    and "client_receive noop_modifier (udp_ops os) clk c = Some (result, c', clk')"
  shows "unanswered c'" "\<And>e. result = Inr e \<Longrightarrow> unanswered_event e"
proof -
  have "cl_should_receive c" "cl_socket c \<noteq> None" using assms(1,2) by (auto simp: rested_def unanswered_def)
  with assms(3) obtain c1 clk1 where 1: "client_receive_tick noop_modifier (udp_ops os) clk c = Some (c1, clk1)"
    "(case cl_events c1 of e # es \<Rightarrow> (Inr e, c1\<lparr>cl_events := es\<rparr>, clk1) | [] \<Rightarrow> (Inl Empty, c1, clk1)) = (result, c', clk')"
    by (auto simp: client_receive_def bind_Some_iff)
  note u = unanswered_receive_tick [OF assms(1,2) 1(1)]
  show "unanswered c'" "\<And>e. result = Inr e \<Longrightarrow> unanswered_event e"
    using unanswered_pop [OF u 1(2)] by blast+
qed

lemma unanswered_events:
  "received_all config b c \<Longrightarrow> unanswered c \<Longrightarrow>
   \<exists>c'. client_events (udp_ops os) out clk c = Some (False, out, c', clk) \<and> received_all config b c' \<and> unanswered c'"
proof (induction "cl_events c" arbitrary: c)
  case Nil
  then show ?case by (subst client_events.simps) (simp add: received_all_receive flip: Nil(1))
next
  case (Cons e es)
  let ?c = "c\<lparr>cl_events := es\<rparr>"
  have r: "client_receive noop_modifier (udp_ops os) clk c = Some (Inr e, ?c, clk)"
    using received_all_receive [OF Cons.prems(1), of os clk] by (simp flip: Cons(2))
  have "cl_events c = e # es" using Cons(2) by simp
  then have u: "unanswered ?c" "unanswered_event e"
    using unanswered_pop [OF Cons.prems(2), of clk "Inr e" ?c clk] by simp_all
  from Cons.hyps(1) [of ?c] Cons.prems(1) u(1) show ?case
    by (subst client_events.simps) (simp add: r unanswered_handle [OF u(2)])
qed

lemma unanswered_send:
  assumes "received_all config b c" "unanswered c"
    and "client_send binary_limiter noop_modifier (udp_ops os) auto clk c = Some (result, sleep, c', clk')"
  shows "unanswered c'"
proof -
  obtain connection s where c: "cl_connection c = Some connection" "unanswered_connection connection"
    "cl_socket c = Some s" "\<forall>datagram. Inr (example_addr, datagram) \<notin> sset (waiting s)"
    "cl_peer_address c = Some example_addr"
    using assms(2) by (auto simp: unanswered_def)
  have i: "conn_invar binary_invar connection" using assms(1) c(1) by (auto simp: received_all_def running_def client_ok_def)
  from assms(3) obtain n connection' s' clk1 collector t where
    1: "send_packet binary_limiter noop_modifier (udp_ops os) example_addr clk connection s = Some (n, connection', s', clk1)"
    "c' = c\<lparr>cl_socket := Some s', cl_connection := Some connection', cl_stats_collector := collector_tick collector,
       cl_stats := average (collector_tick collector), cl_should_receive := True, cl_ticker := t\<rparr>"
    by (auto simp: client_send_def c bind_Some_iff Let_def)
  show ?thesis
    using assms(2) c send_packet_unanswered [OF i c(2) 1(1)] binary.send_packet_waiting [OF i 1(1)]
    by (auto simp: unanswered_def 1(2))
qed

lemma unanswered_pass:
  assumes "rested config b c" "rates_ok (send_rate config) b" "packet_max_size config \<le> b" "unanswered c"
  shows "\<exists>c' clk'. client_pass (udp_ops os) out clk c = Some (False, out, c', clk') \<and>
    rested config b c' \<and> unanswered c'"
proof -
  let ?S = "udp_ops os"
  obtain result c1 clk1 where r: "client_receive noop_modifier ?S clk c = Some (result, c1, clk1)" "received_all config b c1"
    by (rule rested_receive [OF assms(1,2)])
  note u = unanswered_receive [OF assms(1,4) r(1)]
  obtain c2 where e: "client_events ?S out clk c = Some (False, out, c2, clk1)" "received_all config b c2" "unanswered c2"
  proof (cases result)
    case (Inl x)
    with r u that show ?thesis by (subst (asm) client_events.simps) simp
  next
    case (Inr x)
    with u(2) have "client_handle x c1 = Some (False, [], c1)" by (simp add: unanswered_handle)
    with unanswered_events [OF r(2) u(1), of os out clk1] r(1) Inr that show ?thesis
      by (subst (asm) (2) client_events.simps) auto
  qed
  let ?greet = "\<lambda>x. ((), connection_send Instant hello_client x)"
  have "length hello_client < 65536" by (simp add: hello_client_def)
  from received_all_message [OF e(2) this] have g: "received_all config b (snd (client_connection ?greet c2))" .
  have "unanswered (snd (client_connection ?greet c2))"
    using e(3) by (auto simp: unanswered_def client_connection_def unanswered_connection_def connection_send_def mq_send_def)
  moreover obtain sleep c3 clk3 where
    s: "client_send binary_limiter noop_modifier ?S True clk1 (snd (client_connection ?greet c2)) = Some (Inr (), sleep, c3, clk3)"
    "rested config b c3"
    by (rule received_all_send [OF g assms(2,3)])
  ultimately have "unanswered c3" using unanswered_send [OF g] by blast
  with e(1) s show ?thesis by (simp add: client_pass_def Let_def)
qed

lemma unanswered_loop:
  "rested config b c \<Longrightarrow> rates_ok (send_rate config) b \<Longrightarrow> packet_max_size config \<le> b \<Longrightarrow> unanswered c \<Longrightarrow>
   \<exists>c' clk'. client_loop (udp_ops os) n out clk c = Some (False, out, c', clk')"
proof (induction n arbitrary: clk c)
  case (Suc n)
  from unanswered_pass [OF Suc.prems, of os out clk] obtain c1 clk1 where
    "client_pass (udp_ops os) out clk c = Some (False, out, c1, clk1)" "rested config b c1" "unanswered c1"
    by blast
  with Suc.IH [of c1 clk1] Suc.prems(2,3) show ?case by simp
qed simp

text \<open>C25: A client whose server does not answer never ends. It has its socket, every burst of arrivals ends, and if no datagram comes from the server's address, then
  after any number of passes the main loop of the example is still running and has printed nothing but
  that it is connecting: the failure of the attempt is an event like any other to it, and the library
  keeps the failed connection.\<close>

theorem unanswered_client_never_ends:
  assumes "valid_settings config" "binary_valid config"
    and "tick_overflow_recovery config \<longrightarrow> f32_nonneg (tick_overflow_recovery_rate config)"
    and "rates_ok (send_rate config) b" "packet_max_size config \<le> b"
    and "udp_new os wildcard_addr (packet_max_size config) = Inr s" "udp_local_addr s = Inr local_addr"
    and "bursts_within b 0 (waiting s)"
    and "\<forall>datagram. Inr (example_addr, datagram) \<notin> sset (waiting s)"
  shows "\<exists>c. client_program config (udp_ops os) random n clk = Some (False, [Connecting_Line], c)"
proof (rule example_connects [OF assms(1-3,6-8), of clk random])
  fix c0 clk0 c clk1 connection
  assume c: "client_new config clk = Some (c0, clk0)"
    "client_connect binary_limiter noop_modifier (udp_ops os) (Inr [example_addr]) random clk0 c0 =
       Some (Inr (), c, clk1)" "rested config b c"
    and "cl_connection c = Some connection" "cn_state connection = Connecting" "cn_events connection = []"
      "recv_queue (cn_queue connection) = []" "cl_events c = []" "cl_peer_address c = Some example_addr"
      "cl_socket c = Some s"
  with assms(9) have "unanswered c" by (simp add: unanswered_def unanswered_connection_def)
  from unanswered_loop [OF c(3) assms(4,5) this, of os n "[Connecting_Line]" clk1] c(1,2)
  show ?thesis by (auto simp: client_program_def)
qed

theorem unanswered_client_never_ends_witness:
  "\<exists>c. client_main (udp_ops (fresh_os (Inr (V4 (9, 9, 9, 9) 9, [1, 2, 3, 4, 0, 0, 0, 9]) ## silence) [])) 7 1000 (\<lambda>k. k) =
    Some (False, [Connecting_Line], c)"
proof -
  let ?arrivals = "Inr (V4 (9, 9, 9, 9) 9, [1, 2, 3, 4, 0, 0, 0, 9]) ## silence :: arrivals"
  obtain s where s: "udp_new (fresh_os ?arrivals []) wildcard_addr (packet_max_size default_config) = Inr s"
    "udp_local_addr s = Inr wildcard_addr" "waiting s = ?arrivals"
    by (rule fresh_socket_opens)
  have "bursts_within 2000 0 (waiting s)" "\<forall>datagram. Inr (example_addr, datagram) \<notin> sset (waiting s)"
    by (simp_all add: s(3) example_addr_def)
  from unanswered_client_never_ends [OF _ _ _ _ _ s(1,2) this, of 7 1000 "\<lambda>k. k"] show ?thesis
    by (auto simp: client_main_def rates_ok_def)
qed

end
