(* ===== verification/Server.thy ===== *)
theory Server
  imports Connection Ticker Stats
begin

text \<open>
  The server of \<open>src/server.rs\<close>: connections and their addresses by connection id over one socket, with a
  ticker, traffic statistics and a queue of events. The two hash maps are maps; where the source iterates
  over one, the order is an argument, for the standard library leaves it open. The random number that
  \<open>Connection::new\<close> draws is an argument too, and of no consequence: the id is overwritten at once.
\<close>

datatype server_event =
    Server_Connection connection_id
  | Server_ConnectionLost connection_id bool
  | Server_ConnectionClosed connection_id bool
  | Server_Message connection_id bytes
  | Server_ConnectionCongestionStateChanged connection_id bool
  | Server_PacketLost connection_id bytes

record ('s, 'r, 'm) server =
  sv_config :: config
  sv_socket :: "'s option"
  sv_connections :: "connection_id \<rightharpoonup> ('r, 'm) connection"
  sv_addresses :: "connection_id \<rightharpoonup> socket_addr"
  sv_dropped :: "connection_id list"
  sv_ticker :: ticker
  sv_local_address :: "socket_addr option"
  sv_events :: "server_event list"
  sv_should_receive :: bool
  sv_stats_collector :: stats_collector
  sv_stats :: stats

definition server_new :: "config \<Rightarrow> clock \<Rightarrow> (('s, 'r, 'm) server \<times> clock) option" where
  "server_new config clk =
     do {
       (t, clk) \<leftarrow> ticker_new config clk;
       Some (\<lparr>sv_config = config, sv_socket = None, sv_connections = Map.empty, sv_addresses = Map.empty,
              sv_dropped = [], sv_ticker = t, sv_local_address = None, sv_events = [],
              sv_should_receive = False, sv_stats_collector = collector_new config,
              sv_stats = \<lparr>bytes_sent = 0, bytes_received = 0\<rparr>\<rparr>, clk)
     }"

definition server_bytes_sent :: "('s, 'r, 'm) server \<Rightarrow> u32" where
  "server_bytes_sent v = bytes_sent (sv_stats v)"

definition server_bytes_received :: "('s, 'r, 'm) server \<Rightarrow> u32" where
  "server_bytes_received v = bytes_received (sv_stats v)"

definition server_local_addr :: "('s, 'r, 'm) server \<Rightarrow> io_error + socket_addr" where
  "server_local_addr v = (case sv_local_address v of Some a \<Rightarrow> Inr a | None \<Rightarrow> Inl AddrNotAvailable)"

text \<open>\<open>connection(id)\<close> lends a mutable reference; \<open>use\<close> is what the caller does with it.\<close>

definition server_connection ::
  "connection_id \<Rightarrow> (('r, 'm) connection \<Rightarrow> 'a \<times> ('r, 'm) connection) \<Rightarrow> ('s, 'r, 'm) server \<Rightarrow>
     (io_error + 'a) \<times> ('s, 'r, 'm) server" where
  "server_connection i use v =
     (if sv_socket v = None then (Inl NotConnected, v)
      else
        (case sv_connections v i of
           Some connection \<Rightarrow>
             (let (a, connection) = use connection
              in (Inr a, v\<lparr>sv_connections := (sv_connections v)(i \<mapsto> connection)\<rparr>))
         | None \<Rightarrow> (Inl NotFound, v)))"

text \<open>\<open>connections()\<close> lends the whole map.\<close>

definition server_connections ::
  "((connection_id \<rightharpoonup> ('r, 'm) connection) \<Rightarrow> 'a \<times> (connection_id \<rightharpoonup> ('r, 'm) connection)) \<Rightarrow>
     ('s, 'r, 'm) server \<Rightarrow> 'a \<times> ('s, 'r, 'm) server" where
  "server_connections use v =
     (let (a, connections) = use (sv_connections v) in (a, v\<lparr>sv_connections := connections\<rparr>))"

definition server_socket :: "('s \<Rightarrow> 'a \<times> 's) \<Rightarrow> ('s, 'r, 'm) server \<Rightarrow> (io_error + 'a) \<times> ('s, 'r, 'm) server" where
  "server_socket use v =
     (case sv_socket v of
        Some s \<Rightarrow> (let (a, s) = use s in (Inr a, v\<lparr>sv_socket := Some s\<rparr>))
      | None \<Rightarrow> (Inl NotConnected, v))"

definition server_config :: "('s, 'r, 'm) server \<Rightarrow> config" where
  "server_config v = sv_config v"

definition server_set_config :: "config \<Rightarrow> ('s, 'r, 'm) server \<Rightarrow> ('s, 'r, 'm) server option" where
  "server_set_config config v =
     do {
       t \<leftarrow> ticker_set_config config (sv_ticker v);
       Some (v\<lparr>sv_config := config, sv_ticker := t,
               sv_stats_collector := collector_set_config config (sv_stats_collector v),
               sv_connections := map_option (connection_set_config config) \<circ> sv_connections v\<rparr>)
     }"

definition server_listen ::
  "'s socket \<Rightarrow> (io_error + socket_addr list) \<Rightarrow> ('s, 'r, 'm) server \<Rightarrow> ((io_error + unit) \<times> ('s, 'r, 'm) server) option" where
  "server_listen S resolve v =
     (case sv_socket v of
        Some _ \<Rightarrow> Some (Inl AlreadyExists, v)
      | None \<Rightarrow>
          (case resolve of
             Inl e \<Rightarrow> Some (Inl e, v)
           | Inr addrs \<Rightarrow>
               do {
                 local_addr \<leftarrow> checked_nth addrs 0;
                 Some (case sock_new S local_addr (packet_max_size (sv_config v)) of
                         Inl e \<Rightarrow> (Inl e, v)
                       | Inr s \<Rightarrow>
                           (Inr (),
                            v\<lparr>sv_socket := Some s, sv_local_address := Some local_addr,
                              sv_should_receive := True\<rparr>))
               }))"

subsection \<open>Events\<close>

text \<open>A failed connection attempt is \<open>unreachable!()\<close> on a server.\<close>

fun server_event_of :: "connection_id \<Rightarrow> connection_event \<Rightarrow> server_event option" where
  "server_event_of i Connected_Event = Some (Server_Connection i)"
| "server_event_of i (Lost_Event by_remote) = Some (Server_ConnectionLost i by_remote)"
| "server_event_of i FailedToConnect_Event = None"
| "server_event_of i (Closed_Event by_remote) = Some (Server_ConnectionClosed i by_remote)"
| "server_event_of i (Message_Event payload) = Some (Server_Message i payload)"
| "server_event_of i (CongestionStateChanged_Event c) = Some (Server_ConnectionCongestionStateChanged i c)"
| "server_event_of i (PacketLost_Event payload) = Some (Server_PacketLost i payload)"

fun push_events :: "connection_id \<Rightarrow> connection_event list \<Rightarrow> server_event list \<Rightarrow> server_event list option" where
  "push_events i [] events = Some events"
| "push_events i (e # es) events =
     do { e' \<leftarrow> server_event_of i e; push_events i es (events @ [e']) }"

definition map_connection_events ::
  "server_event list \<Rightarrow> ('r, 'm) connection \<Rightarrow> (server_event list \<times> ('r, 'm) connection) option" where
  "map_connection_events events connection =
     (let i = random_id connection; (es, connection) = connection_events connection
      in do { events \<leftarrow> push_events i es events; Some (events, connection) })"

subsection \<open>Receiving\<close>

definition receive_connection_packet ::
  "'r rate_limiter \<Rightarrow> 'm packet_modifier \<Rightarrow> u32 \<Rightarrow> connection_id \<Rightarrow> socket_addr \<Rightarrow> bytes \<Rightarrow> clock \<Rightarrow>
     ('s, 'r, 'm) server \<Rightarrow> (nat \<times> ('s, 'r, 'm) server \<times> clock) option" where
  "receive_connection_packet R M random i addr packet clk v =
     (case sv_connections v i of
        Some connection \<Rightarrow>
          do {
            (accepted, connection, clk) \<leftarrow> receive_packet M packet clk connection;
            let moved = accepted \<and> addr \<noteq> peer_address connection;
            let connection = (if moved then set_peer_addr addr connection else connection);
            let addresses = (if moved then (sv_addresses v)(i \<mapsto> addr) else sv_addresses v);
            (events, connection) \<leftarrow> map_connection_events (sv_events v) connection;
            Some (length packet,
              v\<lparr>sv_connections := (sv_connections v)(i \<mapsto> connection), sv_addresses := addresses,
                sv_events := events\<rparr>, clk)
          }
      | None \<Rightarrow>
          do {
            local_addr \<leftarrow> sv_local_address v;
            let (limiter, clk) = rl_new R (sv_config v) clk;
            let (connection, clk) =
              connection_new (sv_config v) local_addr addr limiter (pm_new M (sv_config v)) random clk;
            let connection = set_id i connection;
            let addresses = (sv_addresses v)(i \<mapsto> addr);
            (accepted, connection, clk) \<leftarrow> receive_packet M packet clk connection;
            (events, connection) \<leftarrow>
              (if accepted then map_connection_events (sv_events v) connection
               else Some (sv_events v, connection));
            Some (length packet,
              v\<lparr>sv_connections := (sv_connections v)(i \<mapsto> connection), sv_addresses := addresses,
                sv_events := events\<rparr>, clk)
          })"

text \<open>The body of the loop over the packets of the socket.\<close>

definition server_packet ::
  "'r rate_limiter \<Rightarrow> 'm packet_modifier \<Rightarrow> u32 \<Rightarrow> socket_addr \<Rightarrow> bytes \<Rightarrow> nat \<times> ('s, 'r, 'm) server \<times> clock \<Rightarrow>
     (nat \<times> ('s, 'r, 'm) server \<times> clock) option" where
  "server_packet R M random addr packet = (\<lambda>(received, v, clk).
     case id_from_packet (sv_config v) packet of
       Some i \<Rightarrow>
         do {
           (n, v, clk) \<leftarrow> receive_connection_packet R M random i addr packet clk v;
           Some (received + n, v, clk)
         }
     | None \<Rightarrow> Some (received, v, clk))"

text \<open>The part of \<open>accept_receive\<close> that runs once per tick.\<close>

definition server_receive_tick ::
  "'r rate_limiter \<Rightarrow> 'm packet_modifier \<Rightarrow> 's socket \<Rightarrow> u32 \<Rightarrow> clock \<Rightarrow> ('s, 'r, 'm) server \<Rightarrow>
     (('s, 'r, 'm) server \<times> clock) option" where
  "server_receive_tick R M S random clk v =
     do {
       let (t, clk) = begin_tick clk (sv_ticker v);
       s \<leftarrow> sv_socket v;
       ((received, v, clk), s) \<leftarrow>
         recv_loop S (server_packet R M random) s (0, v\<lparr>sv_ticker := t\<rparr>, clk);
       collector \<leftarrow> set_bytes_received (word_of_nat received) (sv_stats_collector v);
       Some (v\<lparr>sv_socket := Some s, sv_stats_collector := collector, sv_should_receive := False\<rparr>, clk)
     }"

definition server_accept_receive ::
  "'r rate_limiter \<Rightarrow> 'm packet_modifier \<Rightarrow> 's socket \<Rightarrow> u32 \<Rightarrow> clock \<Rightarrow> ('s, 'r, 'm) server \<Rightarrow>
     ((try_recv_error + server_event) \<times> ('s, 'r, 'm) server \<times> clock) option" where
  "server_accept_receive R M S random clk v =
     (if sv_socket v = None then Some (Inl Disconnected, v, clk)
      else
        do {
          (v, clk) \<leftarrow>
            (if sv_should_receive v then server_receive_tick R M S random clk v else Some (v, clk));
          Some (case sv_events v of
                  e # es \<Rightarrow> (Inr e, v\<lparr>sv_events := es\<rparr>, clk)
                | [] \<Rightarrow> (Inl Empty, v, clk))
        })"

subsection \<open>Sending\<close>

text \<open>Connections dropped in the last \<open>send\<close> are removed and reset.\<close>

fun remove_dropped ::
  "'r rate_limiter \<Rightarrow> connection_id list \<Rightarrow> clock \<Rightarrow> ('s, 'r, 'm) server \<Rightarrow> (('s, 'r, 'm) server \<times> clock) option" where
  "remove_dropped R [] clk v = Some (v\<lparr>sv_dropped := []\<rparr>, clk)"
| "remove_dropped R (i # ids) clk v =
     do {
       connection \<leftarrow> sv_connections v i;
       let (_, clk) = connection_reset R clk connection;
       remove_dropped R ids clk
         (v\<lparr>sv_connections := (sv_connections v)(i := None), sv_addresses := (sv_addresses v)(i := None)\<rparr>)
     }"

text \<open>The body of the loop over the connections, and the loop over them in the order given.\<close>

definition send_connection ::
  "'r rate_limiter \<Rightarrow> 'm packet_modifier \<Rightarrow> 's socket \<Rightarrow> connection_id \<Rightarrow> u32 \<times> 's \<times> ('s, 'r, 'm) server \<times> clock \<Rightarrow>
     (u32 \<times> 's \<times> ('s, 'r, 'm) server \<times> clock) option" where
  "send_connection R M S i = (\<lambda>(total, s, v, clk).
     do {
       connection \<leftarrow> sv_connections v i;
       addr \<leftarrow> sv_addresses v i;
       (n, connection, s, clk) \<leftarrow> send_packet R M S addr clk connection s;
       total \<leftarrow> checked_add_u32 total n;
       if connection_open connection
       then Some (total, s, v\<lparr>sv_connections := (sv_connections v)(i \<mapsto> connection)\<rparr>, clk)
       else
         do {
           (events, connection) \<leftarrow> map_connection_events (sv_events v) connection;
           Some (total, s,
             v\<lparr>sv_connections := (sv_connections v)(i \<mapsto> connection), sv_events := events,
               sv_dropped := sv_dropped v @ [i]\<rparr>, clk)
         }
     })"

fun send_connections ::
  "'r rate_limiter \<Rightarrow> 'm packet_modifier \<Rightarrow> 's socket \<Rightarrow> connection_id list \<Rightarrow> u32 \<times> 's \<times> ('s, 'r, 'm) server \<times> clock \<Rightarrow>
     (u32 \<times> 's \<times> ('s, 'r, 'm) server \<times> clock) option" where
  "send_connections R M S [] st = Some st"
| "send_connections R M S (i # ids) st =
     do { st \<leftarrow> send_connection R M S i st; send_connections R M S ids st }"

text \<open>\<open>order\<close> is the order in which the hash map of the connections left is iterated.\<close>

definition server_send ::
  "'r rate_limiter \<Rightarrow> 'm packet_modifier \<Rightarrow> 's socket \<Rightarrow> connection_id list \<Rightarrow> bool \<Rightarrow> clock \<Rightarrow> ('s, 'r, 'm) server \<Rightarrow>
     ((io_error + unit) \<times> duration \<times> ('s, 'r, 'm) server \<times> clock) option" where
  "server_send R M S order auto_tick clk v =
     (case sv_socket v of
        None \<Rightarrow> Some (Inl NotConnected, 0, v, clk)
      | Some s \<Rightarrow>
          do {
            (v, clk) \<leftarrow> remove_dropped R (sv_dropped v) clk v;
            (sent, s, v, clk) \<leftarrow> send_connections R M S order (0, s, v, clk);
            collector \<leftarrow> set_bytes_sent sent (sv_stats_collector v);
            let collector = collector_tick collector;
            let v = v\<lparr>sv_socket := Some s, sv_stats_collector := collector, sv_stats := average collector,
                      sv_should_receive := True\<rparr>;
            (sleep, t, clk) \<leftarrow> (if auto_tick then end_tick clk (sv_ticker v) else Some (0, sv_ticker v, clk));
            Some (Inr (), sleep, v\<lparr>sv_ticker := t\<rparr>, clk)
          })"

subsection \<open>Shutdown\<close>

definition server_shutdown ::
  "clock \<Rightarrow> ('s, 'r, 'm) server \<Rightarrow> (io_error + unit) \<times> ('s, 'r, 'm) server \<times> clock" where
  "server_shutdown clk v =
     (if sv_socket v = None then (Inl NotConnected, v, clk)
      else
        (let (t, clk) = ticker_reset clk (sv_ticker v)
         in (Inr (),
             v\<lparr>sv_should_receive := False, sv_stats_collector := collector_reset (sv_stats_collector v),
               sv_stats := stats_reset (sv_stats v), sv_events := [], sv_connections := Map.empty,
               sv_addresses := Map.empty, sv_dropped := [], sv_ticker := t, sv_local_address := None,
               sv_socket := None\<rparr>, clk)))"

end
