(* ===== verification/Server_Properties.thy ===== *)
theory Server_Properties
  imports Server Connection_Properties
begin

text \<open>
  The properties of a server: the maps of connections and addresses agree and every connection is served
  under its own id, what the receive loop and \<open>send\<close> do to them, and how one short packet stops it.
\<close>

subsection \<open>One connection\<close>

definition served ::
  "('r \<Rightarrow> bool) \<Rightarrow> config \<Rightarrow> connection_id \<Rightarrow> socket_addr \<Rightarrow> ('r, 'm) connection \<Rightarrow> bool" where
  "served ok config i addr c \<longleftrightarrow>
     conn_invar ok c \<and> random_id c = i \<and> cn_config c = config \<and> peer_address c = addr \<and>
     FailedToConnect_Event \<notin> set (cn_events c)"

lemma served_same_peer:
  "served ok config i addr c \<Longrightarrow> same_peer c c' \<Longrightarrow> conn_invar ok c' \<Longrightarrow>
   FailedToConnect_Event \<notin> set (cn_events c') \<Longrightarrow> served ok config i addr c'"
  by (simp add: served_def same_peer_def)

lemma served_new:
  "valid_settings config \<Longrightarrow> ok limiter \<Longrightarrow>
   served ok config i addr (set_id i (fst (connection_new config local_addr addr limiter modifier random clk)))"
  using conn_invar_new [of config ok limiter local_addr addr modifier random clk]
  by (simp add: served_def conn_invar_simple_ops) (simp add: connection_new_def set_id_def)

text \<open>Receiving never makes a connection attempt fail.\<close>

lemma update_receive_events:
  "FailedToConnect_Event \<in> set (cn_events (snd (update_receive_state packet c))) \<Longrightarrow> FailedToConnect_Event \<in> set (cn_events c)"
  by (auto simp: update_receive_state_def push_event_def split: if_splits connection_state.splits)

lemma receive_packet_events:
  assumes "conn_invar ok c" "receive_packet M packet clk c = Some (accepted, c', clk')"
    and "FailedToConnect_Event \<notin> set (cn_events c)"
  shows "FailedToConnect_Event \<notin> set (cn_events c')"
proof (cases "length packet < PACKET_HEADER_SIZE \<or> \<not> fst (update_receive_state packet c)")
  case True
  then show ?thesis
    by (rule receive_packet_rejected [of packet c M clk]) (use assms(2,3) update_receive_events in auto)
next
  case False
  obtain replacement modifier where
    m: "pm_incoming M (drop PACKET_HEADER_SIZE packet) (cn_modifier c) = (replacement, modifier)" by force
  have len: "PACKET_HEADER_SIZE \<le> length packet" and acc: "fst (update_receive_state packet c)"
    using False by simp_all
  show ?thesis
    by (rule receive_packet_accepted [OF assms(1) len acc m refl, of clk]) (use assms(2,3) update_receive_events in auto)
qed

lemma served_receive:
  assumes "served ok config i addr c"
  obtains accepted c' clk' where "receive_packet M packet clk c = Some (accepted, c', clk')" "served ok config i addr c'"
proof -
  have i: "conn_invar ok c" using assms by (simp add: served_def)
  show thesis
  proof (rule receive_packet_invar [OF i, of M packet clk], goal_cases)
    case (1 accepted c' clk')
    from receive_packet_events [OF i 1(1)] assms have "FailedToConnect_Event \<notin> set (cn_events c')"
      by (simp add: served_def)
    from served_same_peer [OF assms 1(4,2) this] 1(1) that show thesis by blast
  qed
qed

lemma push_events_total: "FailedToConnect_Event \<notin> set es \<Longrightarrow> \<exists>events'. push_events i es events = Some events'"
proof (induction es arbitrary: events)
  case (Cons e es)
  then show ?case by (cases e) auto
qed simp

lemma push_events_failed: "FailedToConnect_Event \<in> set es \<Longrightarrow> push_events i es events = None"
proof (induction es arbitrary: events)
  case (Cons e es)
  then show ?case by (cases e) auto
qed simp

lemma map_connection_events_drain:
  "map_connection_events events c = Some (events', c') \<Longrightarrow> c' = snd (connection_events c)"
  by (auto simp: map_connection_events_def bind_Some_iff split_beta)

lemma connection_events_fields:
  "cn_events (snd (connection_events c)) = []" "cn_state (snd (connection_events c)) = cn_state c"
  by (simp_all add: connection_events_def split_beta)

lemma served_drained:
  "conn_invar ok c \<Longrightarrow> random_id c = i \<Longrightarrow> cn_config c = config \<Longrightarrow> peer_address c = addr \<Longrightarrow>
   served ok config i addr (snd (connection_events c))"
  using same_peer_simple_ops(2) [of c]
  by (simp add: served_def conn_invar_simple_ops connection_events_fields same_peer_def)

lemma served_events:
  assumes "served ok config i addr c"
  obtains events' c' where "map_connection_events events c = Some (events', c')" "served ok config i addr c'"
    "cn_state c' = cn_state c"
proof -
  have "FailedToConnect_Event \<notin> set (fst (connection_events c))"
    using assms by (auto simp: served_def connection_events_def split_beta)
  then obtain events' where "push_events (random_id c) (fst (connection_events c)) events = Some events'"
    using push_events_total by blast
  then have "map_connection_events events c = Some (events', snd (connection_events c))"
    by (simp add: map_connection_events_def split_beta)
  moreover have "served ok config i addr (snd (connection_events c))"
    using assms by (intro served_drained) (simp_all add: served_def)
  ultimately show thesis using that by (simp add: connection_events_fields)
qed

subsection \<open>The invariant\<close>

definition server_ok :: "('r \<Rightarrow> bool) \<Rightarrow> (config \<Rightarrow> bool) \<Rightarrow> ('s, 'r, 'm) server \<Rightarrow> bool" where
  "server_ok ok config_ok v \<longleftrightarrow>
     valid_settings (sv_config v) \<and> config_ok (sv_config v) \<and>
     dom (sv_addresses v) = dom (sv_connections v) \<and>
     distinct (sv_dropped v) \<and> set (sv_dropped v) \<subseteq> dom (sv_connections v) \<and>
     (sv_socket v = None \<longleftrightarrow> sv_local_address v = None) \<and>
     (sv_socket v = None \<longrightarrow> dom (sv_connections v) = {}) \<and>
     (\<forall>i c. sv_connections v i = Some c \<longrightarrow>
        (\<exists>addr. sv_addresses v i = Some addr \<and> served ok (sv_config v) i addr c))"

text \<open>Replacing or adding one served connection.\<close>

lemma server_ok_put:
  assumes "server_ok ok config_ok v" "served ok (sv_config v) i addr c" "sv_local_address v \<noteq> None"
  shows "server_ok ok config_ok (v\<lparr>sv_connections := (sv_connections v)(i \<mapsto> c),
    sv_addresses := (sv_addresses v)(i \<mapsto> addr), sv_events := events\<rparr>)"
  using assms by (auto simp: server_ok_def)

lemma map_upd_same: "m i = Some a \<Longrightarrow> m(i \<mapsto> a) = m"
  by (rule ext) simp

lemma receive_connection_packet_spec:
  assumes "server_ok ok config_ok v" "sv_local_address v \<noteq> None"
    and new: "\<And>clk. config_ok (sv_config v) \<Longrightarrow> ok (fst (rl_new R (sv_config v) clk))"
  obtains c addr' events v' clk' where
    "receive_connection_packet R M random i addr packet clk v = Some (length packet, v', clk')"
    "v' = v\<lparr>sv_connections := (sv_connections v)(i \<mapsto> c), sv_addresses := (sv_addresses v)(i \<mapsto> addr'), sv_events := events\<rparr>"
    "server_ok ok config_ok v'"
    "\<And>c0 accepted c1 clk1. sv_connections v i = Some c0 \<Longrightarrow> receive_packet M packet clk c0 = Some (accepted, c1, clk1) \<Longrightarrow>
       addr' = (if accepted then addr else peer_address c0)"
proof (cases "sv_connections v i")
  case (Some c0)
  then obtain addr0 where a: "sv_addresses v i = Some addr0" "served ok (sv_config v) i addr0 c0"
    using assms(1) unfolding server_ok_def by blast
  obtain accepted c1 clk1 where r: "receive_packet M packet clk c0 = Some (accepted, c1, clk1)"
    "served ok (sv_config v) i addr0 c1"
    by (rule served_receive [OF a(2), of M packet clk])
  have p: "peer_address c0 = addr0" "peer_address c1 = addr0" using a(2) r(2) by (simp_all add: served_def)
  let ?addr = "if accepted then addr else addr0"
  let ?moved = "accepted \<and> addr \<noteq> addr0"
  let ?c = "if ?moved then set_peer_addr addr c1 else c1"
  have "served ok (sv_config v) i ?addr ?c"
    using r(2) by (auto simp: served_def conn_invar_simple_ops) (simp_all add: set_peer_addr_def)
  then obtain events c2 where e: "map_connection_events (sv_events v) ?c = Some (events, c2)"
    "served ok (sv_config v) i ?addr c2"
    by (rule served_events)
  have addresses: "(if ?moved then (sv_addresses v)(i \<mapsto> addr) else sv_addresses v) = (sv_addresses v)(i \<mapsto> ?addr)"
    using a(1) by (auto simp: map_upd_same)
  show thesis
  proof (rule that [OF _ refl server_ok_put [OF assms(1) e(2) assms(2)]])
    show "receive_connection_packet R M random i addr packet clk v = Some (length packet,
        v\<lparr>sv_connections := (sv_connections v)(i \<mapsto> c2), sv_addresses := (sv_addresses v)(i \<mapsto> ?addr), sv_events := events\<rparr>, clk1)"
      using e(1) addresses unfolding receive_connection_packet_def by (simp add: Some r(1) p(2) Let_def)
  qed (use Some r(1) p(1) in simp)
next
  case None
  obtain local_addr where l: "sv_local_address v = Some local_addr" using assms(2) by blast
  obtain limiter clk0 where n: "rl_new R (sv_config v) clk = (limiter, clk0)" by force
  obtain c0 clk1 where d:
    "connection_new (sv_config v) local_addr addr limiter (pm_new M (sv_config v)) random clk0 = (c0, clk1)" by force
  have "served ok (sv_config v) i addr (set_id i c0)"
    using served_new [of "sv_config v" ok limiter i addr local_addr "pm_new M (sv_config v)" random clk0]
      new [of clk] assms(1) n d by (simp add: server_ok_def)
  then obtain accepted c1 clk2 where r: "receive_packet M packet clk1 (set_id i c0) = Some (accepted, c1, clk2)"
    "served ok (sv_config v) i addr c1"
    by (rule served_receive)
  obtain events c2 where e: "map_connection_events (sv_events v) c1 = Some (events, c2)" "served ok (sv_config v) i addr c2"
    by (rule served_events [OF r(2)])
  show thesis
  proof (rule that [OF _ refl server_ok_put [OF assms(1) _ assms(2)]])
    show "receive_connection_packet R M random i addr packet clk v = Some (length packet,
        v\<lparr>sv_connections := (sv_connections v)(i \<mapsto> if accepted then c2 else c1),
          sv_addresses := (sv_addresses v)(i \<mapsto> addr), sv_events := if accepted then events else sv_events v\<rparr>, clk2)"
      using e(1) by (simp add: receive_connection_packet_def None l n d r(1))
    show "served ok (sv_config v) i addr (if accepted then c2 else c1)" using e(2) r(2) by simp
  qed (use None in simp)
qed

subsection \<open>Receiving\<close>

lemma server_packet_ok:
  assumes "server_ok ok config_ok v" "sv_local_address v \<noteq> None"
    and new: "\<And>clk. config_ok (sv_config v) \<Longrightarrow> ok (fst (rl_new R (sv_config v) clk))"
  obtains n' v' clk' where "server_packet R M random addr packet (n, v, clk) = Some (n', v', clk')"
    "server_ok ok config_ok v'" "dom (sv_connections v) \<subseteq> dom (sv_connections v')"
    "sv_config v' = sv_config v" "sv_local_address v' = sv_local_address v" "sv_socket v' = sv_socket v"
    "sv_dropped v' = sv_dropped v"
proof (cases "id_from_packet (sv_config v) packet")
  case None
  with assms(1) that show thesis by (simp add: server_packet_def)
next
  case (Some i)
  show thesis
  proof (rule receive_connection_packet_spec [OF assms, of M random i addr packet clk], goal_cases)
    case (2 c addr' events v' clk')
    with Some that show ?case by (auto simp: server_packet_def)
  qed
qed

lemma server_receive_loop_ok:
  assumes "recv_loop S (server_packet R M random) s (n, v, clk) = Some ((n', v', clk'), s')"
    and "server_ok ok config_ok v" "sv_local_address v \<noteq> None"
    and new: "\<And>clk. config_ok (sv_config v) \<Longrightarrow> ok (fst (rl_new R (sv_config v) clk))"
  shows "server_ok ok config_ok v' \<and> sv_socket v' = sv_socket v \<and> sv_config v' = sv_config v"
proof -
  let ?P = "\<lambda>(n, w, clk :: clock). server_ok ok config_ok w \<and> sv_local_address w \<noteq> None \<and>
    sv_socket w = sv_socket v \<and> sv_config w = sv_config v"
  have "?P (fst ((n', v', clk'), s'))"
  proof (rule recv_loop_invar [OF assms(1)])
    show "\<forall>addr packet a a'. ?P a \<longrightarrow> server_packet R M random addr packet a = Some a' \<longrightarrow> ?P a'"
    proof (intro allI impI)
      fix addr packet a a'
      assume P: "?P a" and step: "server_packet R M random addr packet a = Some a'"
      obtain n w clk where a: "a = (n, w, clk)" by (cases a) auto
      have w: "server_ok ok config_ok w" "sv_local_address w \<noteq> None" "sv_config w = sv_config v" "sv_socket w = sv_socket v"
        using P by (simp_all add: a)
      have new': "\<And>clk. config_ok (sv_config w) \<Longrightarrow> ok (fst (rl_new R (sv_config w) clk))" using new w(3) by simp
      obtain n' w' clk' where "server_packet R M random addr packet (n, w, clk) = Some (n', w', clk')"
        "server_ok ok config_ok w'" "sv_config w' = sv_config w" "sv_local_address w' = sv_local_address w"
        "sv_socket w' = sv_socket w"
        by (rule server_packet_ok [OF w(1,2) new'])
      moreover from this(1) step have "a' = (n', w', clk')" by (simp add: a)
      ultimately show "?P a'" using w by simp
    qed
  qed (use assms(2,3) in simp)
  then show ?thesis by simp
qed

lemma server_ok_fields:
  "sv_config v' = sv_config v \<Longrightarrow> sv_connections v' = sv_connections v \<Longrightarrow> sv_addresses v' = sv_addresses v \<Longrightarrow>
   sv_dropped v' = sv_dropped v \<Longrightarrow> (sv_socket v' = None) = (sv_socket v = None) \<Longrightarrow>
   sv_local_address v' = sv_local_address v \<Longrightarrow> server_ok ok config_ok v' = server_ok ok config_ok v"
  by (simp add: server_ok_def)

lemma server_accept_receive_keeps:
  assumes "server_ok ok config_ok v" "server_accept_receive R M S random clk v = Some (result, v', clk')"
    and new: "\<And>clk. config_ok (sv_config v) \<Longrightarrow> ok (fst (rl_new R (sv_config v) clk))"
  shows "server_ok ok config_ok v'"
proof (cases "sv_socket v")
  case None
  with assms show ?thesis by (simp add: server_accept_receive_def)
next
  case (Some s)
  from assms(2) Some obtain v1 clk1 where
    1: "(if sv_should_receive v then server_receive_tick R M S random clk v else Some (v, clk)) = Some (v1, clk1)"
    "(result, v', clk') = (case sv_events v1 of e # es \<Rightarrow> (Inr e, v1\<lparr>sv_events := es\<rparr>, clk1) | [] \<Rightarrow> (Inl Empty, v1, clk1))"
    by (auto simp: server_accept_receive_def bind_Some_iff)
  have "server_ok ok config_ok v1"
  proof (cases "sv_should_receive v")
    case True
    let ?v = "v\<lparr>sv_ticker := fst (begin_tick clk (sv_ticker v))\<rparr>"
    from 1(1) True Some obtain received v2 clk2 s' collector where
      r: "recv_loop S (server_packet R M random) s (0, ?v, snd (begin_tick clk (sv_ticker v))) = Some ((received, v2, clk2), s')"
      "v1 = v2\<lparr>sv_socket := Some s', sv_stats_collector := collector, sv_should_receive := False\<rparr>"
      by (auto simp: server_receive_tick_def bind_Some_iff split_beta)
    have "server_ok ok config_ok ?v" using assms(1) by (simp add: server_ok_fields [of ?v v])
    moreover have "sv_local_address ?v \<noteq> None" using assms(1) Some by (simp add: server_ok_def)
    ultimately have "server_ok ok config_ok v2 \<and> sv_socket v2 = sv_socket v"
      using server_receive_loop_ok [OF r(1), of ok config_ok] new by simp
    then show ?thesis using Some server_ok_fields [of v1 v2 ok config_ok] by (simp add: r(2))
  next
    case False
    with 1(1) assms(1) show ?thesis by simp
  qed
  then show ?thesis using 1(2) by (cases "sv_events v1") (simp_all add: server_ok_fields [of "v1\<lparr>sv_events := _\<rparr>" v1])
qed

subsection \<open>Sending\<close>

lemma remove_dropped_spec:
  assumes "distinct ids" "set ids \<subseteq> dom (sv_connections v)"
  shows "\<exists>clk'. remove_dropped R ids clk v =
    Some (v\<lparr>sv_connections := sv_connections v |` (- set ids), sv_addresses := sv_addresses v |` (- set ids),
            sv_dropped := []\<rparr>, clk')"
  using assms
proof (induction "ids" arbitrary: v clk)
  case (Cons i ids)
  then obtain c where c: "sv_connections v i = Some c" by auto
  let ?v = "v\<lparr>sv_connections := (sv_connections v)(i := None), sv_addresses := (sv_addresses v)(i := None)\<rparr>"
  have restrict: "m(i := None) |` (- set ids) = m |` (- set (i # ids))" for m :: "connection_id \<rightharpoonup> 'x"
    by (rule ext) (simp add: restrict_map_def)
  have "distinct ids" "set ids \<subseteq> dom (sv_connections ?v)" using Cons.prems by auto
  from Cons.IH [OF this, of "snd (connection_reset R clk c)"] show ?case
    by (simp add: c split_beta restrict del: fun_upd_apply list.set restrict_fun_upd)
qed (simp add: restrict_map_def)

lemma run_events_failed:
  "run_events s es = Some s' \<Longrightarrow> FailedToConnect_Event \<in> set es \<Longrightarrow> s' = FailedToConnect"
proof (induction es arbitrary: s)
  case (Cons e es)
  then obtain s1 where s1: "event_step s e = Some s1" "run_events s1 es = Some s'" by (auto simp: bind_Some_iff)
  show ?case
  proof (cases "e = FailedToConnect_Event")
    case True
    with s1(1) have "s1 = FailedToConnect" by (cases s) auto
    with run_events_final [OF _ s1(2)] show ?thesis by (simp add: final_def)
  next
    case False
    with Cons s1 show ?thesis by auto
  qed
qed simp

text \<open>What the body of the loop over the connections does to the connection it is run for.\<close>

definition sent_to :: "connection_id \<Rightarrow> ('s, 'r, 'm) server \<Rightarrow> ('s, 'r, 'm) server \<Rightarrow> bool" where
  "sent_to i v v' \<longleftrightarrow>
     (\<exists>c events. v' = v\<lparr>sv_connections := (sv_connections v)(i \<mapsto> c), sv_events := events,
        sv_dropped := sv_dropped v @ (if connection_open c then [] else [i])\<rparr>)"

context rate_limiter_laws
begin

lemma served_send:
  assumes "served invar config i addr c"
  obtains n c' s' clk' where "send_packet R M S to clk c s = Some (n, c', s', clk')"
    "conn_invar invar c'" "same_peer c c'" "connection_open c' \<longrightarrow> served invar config i addr c'"
proof -
  have i: "conn_invar invar c" using assms by (simp add: served_def)
  show thesis
  proof (rule send_packet_invar [OF i, of M S to clk s], goal_cases)
    case (1 n c' s' clk')
    from send_packet_follows [OF i 1(1)] obtain es where
      es: "cn_events c' = cn_events c @ es" "run_events (cn_state c) es = Some (cn_state c')"
      by (auto simp: follows_def)
    have "connection_open c' \<Longrightarrow> FailedToConnect_Event \<notin> set (cn_events c')"
      using es run_events_failed [OF es(2)] assms by (auto simp: served_def connection_open_def)
    with that 1 served_same_peer [OF assms 1(3,2)] show thesis by blast
  qed
qed

lemma send_connection_ok:
  assumes "server_ok invar valid_config v" "i \<notin> set (sv_dropped v)"
    and "send_connection R M S i (bytes, s, v, clk) = Some (bytes', s', v', clk')"
  shows "server_ok invar valid_config v' \<and> sent_to i v v'"
proof -
  obtain c where c: "sv_connections v i = Some c" using assms(3) by (auto simp: send_connection_def bind_Some_iff)
  then obtain addr where a: "sv_addresses v i = Some addr" "served invar (sv_config v) i addr c"
    using assms(1) unfolding server_ok_def by blast
  have l: "sv_local_address v \<noteq> None" using assms(1) c by (auto simp: server_ok_def)
  obtain n c' s1 clk1 where r: "send_packet R M S addr clk c s = Some (n, c', s1, clk1)"
    "conn_invar invar c'" "same_peer c c'" "connection_open c' \<longrightarrow> served invar (sv_config v) i addr c'"
    by (rule served_send [OF a(2), of M S addr clk s])
  show ?thesis
  proof (cases "connection_open c'")
    case True
    then have v': "v' = v\<lparr>sv_connections := (sv_connections v)(i \<mapsto> c')\<rparr>"
      using assms(3) r(1) by (auto simp: send_connection_def c a(1) bind_Some_iff)
    have "server_ok invar valid_config v'"
      using assms(1) mp [OF r(4) True] a(1) c unfolding v' server_ok_def by auto
    moreover have "sent_to i v v'"
      unfolding sent_to_def v' by (intro exI [of _ c'] exI [of _ "sv_events v"]) (simp add: True)
    ultimately show ?thesis by simp
  next
    case False
    then obtain events c2 where e: "map_connection_events (sv_events v) c' = Some (events, c2)"
      and v': "v' = v\<lparr>sv_connections := (sv_connections v)(i \<mapsto> c2), sv_events := events, sv_dropped := sv_dropped v @ [i]\<rparr>"
      using assms(3) r(1) by (auto simp: send_connection_def c a(1) bind_Some_iff)
    have c2: "c2 = snd (connection_events c')" by (rule map_connection_events_drain [OF e])
    have "served invar (sv_config v) i addr c2"
      using a(2) r(2,3) unfolding c2 by (intro served_drained) (simp_all add: served_def same_peer_def)
    then have "server_ok invar valid_config v'"
      using assms(1,2) a(1) c unfolding v' server_ok_def by auto
    moreover have "\<not> connection_open c2" using False by (simp add: c2 connection_open_def connection_events_fields)
    then have "sent_to i v v'" unfolding sent_to_def v' by (intro exI [of _ c2] exI [of _ events]) simp
    ultimately show ?thesis by simp
  qed
qed

lemma send_connections_ok:
  assumes "server_ok invar valid_config v" "distinct ids" "set ids \<inter> set (sv_dropped v) = {}" "set ids \<subseteq> dom (sv_connections v)"
    and "send_connections R M S ids (bytes, s, v, clk) = Some (bytes', s', v', clk')"
  shows "server_ok invar valid_config v' \<and> dom (sv_connections v') = dom (sv_connections v) \<and>
    sv_addresses v' = sv_addresses v \<and> sv_socket v' = sv_socket v \<and> sv_local_address v' = sv_local_address v \<and>
    (\<forall>j. j \<notin> set ids \<longrightarrow> sv_connections v' j = sv_connections v j) \<and>
    sv_dropped v' = sv_dropped v @ filter (\<lambda>j. \<not> connection_open (the (sv_connections v' j))) ids"
  using assms
proof (induction "ids" arbitrary: bytes s v clk)
  case (Cons i ids)
  from Cons.prems(5) obtain bytes1 s1 v1 clk1 where
    1: "send_connection R M S i (bytes, s, v, clk) = Some (bytes1, s1, v1, clk1)"
    "send_connections R M S ids (bytes1, s1, v1, clk1) = Some (bytes', s', v', clk')"
    by (auto simp: bind_Some_iff)
  have ok: "server_ok invar valid_config v1" "sent_to i v v1"
    using send_connection_ok [OF Cons.prems(1) _ 1(1)] Cons.prems(3) by auto
  then obtain c events where v1: "v1 = v\<lparr>sv_connections := (sv_connections v)(i \<mapsto> c), sv_events := events,
      sv_dropped := sv_dropped v @ (if connection_open c then [] else [i])\<rparr>"
    by (auto simp: sent_to_def)
  have pre: "distinct ids" "set ids \<inter> set (sv_dropped v1) = {}" "set ids \<subseteq> dom (sv_connections v1)"
    using Cons.prems(2-4) by (auto simp: v1)
  note IH = Cons.IH [OF ok(1) pre 1(2)]
  have "sv_connections v' i = Some c" using IH Cons.prems(2) by (simp add: v1)
  moreover have "dom (sv_connections v1) = dom (sv_connections v)" using Cons.prems(4) by (auto simp: v1)
  ultimately show ?case using IH by (auto simp: v1)
qed simp

end

context rate_limiter_laws
begin

lemma server_send_ok:
  assumes "server_ok invar valid_config v" "distinct order" "set order = dom (sv_connections v) - set (sv_dropped v)"
    and "server_send R M S order auto clk v = Some (r, sleep, v', clk')" "sv_socket v \<noteq> None"
  shows "server_ok invar valid_config v' \<and>
    dom (sv_connections v') = dom (sv_connections v) - set (sv_dropped v) \<and>
    sv_addresses v' = sv_addresses v |` (- set (sv_dropped v)) \<and>
    sv_dropped v' = filter (\<lambda>i. \<not> connection_open (the (sv_connections v' i))) order"
proof -
  let ?v = "v\<lparr>sv_connections := sv_connections v |` (- set (sv_dropped v)),
      sv_addresses := sv_addresses v |` (- set (sv_dropped v)), sv_dropped := []\<rparr>"
  obtain s where s: "sv_socket v = Some s" using assms(5) by blast
  have d: "distinct (sv_dropped v)" "set (sv_dropped v) \<subseteq> dom (sv_connections v)"
    using assms(1) by (simp_all add: server_ok_def)
  obtain clk1 where 1: "remove_dropped R (sv_dropped v) clk v = Some (?v, clk1)"
    using remove_dropped_spec [OF d] by blast
  obtain bytes s' v2 clk2 collector t where
    2: "send_connections R M S order (0, s, ?v, clk1) = Some (bytes, s', v2, clk2)"
    and v': "v' = v2\<lparr>sv_socket := Some s', sv_stats_collector := collector_tick collector,
      sv_stats := average (collector_tick collector), sv_should_receive := True, sv_ticker := t\<rparr>"
    using assms(4) by (auto simp: server_send_def s 1 bind_Some_iff Let_def)
  have ok: "server_ok invar valid_config ?v"
    using assms(1) by (auto simp: server_ok_def restrict_map_def dom_def)
  have pre: "set order \<inter> set (sv_dropped ?v) = {}" "set order \<subseteq> dom (sv_connections ?v)"
    using assms(3) by auto
  note l = send_connections_ok [OF ok assms(2) pre 2]
  have "server_ok invar valid_config v'"
    using l s server_ok_fields [of v' v2 invar valid_config] by (simp add: v')
  then show ?thesis using l by (auto simp: v')
qed

lemma server_send_keeps:
  assumes "server_ok invar valid_config v" "distinct order" "set order = dom (sv_connections v) - set (sv_dropped v)"
    and "server_send R M S order auto clk v = Some (r, sleep, v', clk')"
  shows "server_ok invar valid_config v'"
proof (cases "sv_socket v = None")
  case True
  with assms(1,4) show ?thesis by (simp add: server_send_def)
next
  case False
  from server_send_ok [OF assms this] show ?thesis by blast
qed

end

lemma server_listen_keeps:
  assumes "server_ok ok config_ok v" "server_listen S resolve v = Some (r, v')"
  shows "server_ok ok config_ok v'"
proof (cases "v' = v")
  case False
  have none: "sv_socket v = None" using assms(2) False by (cases "sv_socket v") (auto simp: server_listen_def)
  obtain addrs where a: "resolve = Inr addrs"
    using assms(2) False none by (cases resolve) (auto simp: server_listen_def)
  obtain local_addr where l: "checked_nth addrs 0 = Some local_addr"
    using assms(2) none a by (cases "checked_nth addrs 0") (auto simp: server_listen_def)
  obtain s where "v' = v\<lparr>sv_socket := Some s, sv_local_address := Some local_addr, sv_should_receive := True\<rparr>"
    using assms(2) False none a l
    by (cases "sock_new S local_addr (packet_max_size (sv_config v))") (auto simp: server_listen_def)
  with assms(1) none show ?thesis by (auto simp: server_ok_def)
qed (use assms(1) in simp)

lemma server_shutdown_keeps:
  "server_ok ok config_ok v \<Longrightarrow> server_shutdown clk v = (r, v', clk') \<Longrightarrow> server_ok ok config_ok v'"
  by (auto simp: server_shutdown_def server_ok_def split_beta split: if_splits)

lemma server_set_config_keeps:
  assumes "server_ok ok config_ok v" "server_set_config config v = Some v'" "valid_settings config" "config_ok config"
  shows "server_ok ok config_ok v'"
proof -
  from assms(2) obtain t where v': "v' = v\<lparr>sv_config := config, sv_ticker := t,
      sv_stats_collector := collector_set_config config (sv_stats_collector v),
      sv_connections := map_option (connection_set_config config) \<circ> sv_connections v\<rparr>"
    by (auto simp: server_set_config_def bind_Some_iff)
  have "served ok config i addr (connection_set_config config c)" if "served ok (sv_config v) i addr c" for i addr c
    using conn_invar_set_config [OF _ assms(3), of ok c] that by (simp add: served_def set_config_fields)
  moreover have "dom (map_option (connection_set_config config) \<circ> sv_connections v) = dom (sv_connections v)"
    by (auto simp: dom_def)
  ultimately show ?thesis using assms(1,3,4) unfolding server_ok_def v' by fastforce
qed

text \<open>A fair use of a connection that does not let a connection attempt fail.\<close>

definition quiet_use :: "('r \<Rightarrow> bool) \<Rightarrow> (('r, 'm) connection \<Rightarrow> ('r, 'm) connection) \<Rightarrow> bool" where
  "quiet_use ok use \<longleftrightarrow> fair_use ok use \<and> (\<forall>c. set (cn_events (use c)) \<subseteq> set (cn_events c))"

lemma quiet_use_api:
  "quiet_use ok (connection_send kind payload)" "quiet_use ok (\<lambda>c. snd (connection_events c))"
  "quiet_use ok connection_close"
  by (simp_all add: quiet_use_def fair_use_api connection_events_fields)
    (simp_all add: connection_send_def connection_close_def)

lemma server_connection_keeps:
  assumes "server_ok ok config_ok v" "quiet_use ok use"
  shows "server_ok ok config_ok (snd (server_connection i (\<lambda>c. ((), use c)) v))"
proof (cases "sv_socket v = None \<or> sv_connections v i = None")
  case True
  with assms(1) show ?thesis by (auto simp: server_connection_def)
next
  case False
  then obtain c where c: "sv_connections v i = Some c" by auto
  then obtain addr where a: "sv_addresses v i = Some addr" "served ok (sv_config v) i addr c"
    using assms(1) unfolding server_ok_def by blast
  have "served ok (sv_config v) i addr (use c)"
    using assms(2) a(2) served_same_peer [OF a(2)]
    by (auto simp: quiet_use_def fair_use_def served_def)
  then show ?thesis using assms(1) a(1) c False by (auto simp: server_connection_def server_ok_def)
qed

subsection \<open>Reachable servers\<close>

text \<open>Any use of a server: any socket and clock, any iteration order of the hash map, any fair use of what
  it lends.\<close>

inductive server_reachable ::
  "'r rate_limiter \<Rightarrow> 'm packet_modifier \<Rightarrow> 's socket \<Rightarrow> ('r \<Rightarrow> bool) \<Rightarrow> (config \<Rightarrow> bool) \<Rightarrow> ('s, 'r, 'm) server \<Rightarrow> bool"
  for R :: "'r rate_limiter" and M :: "'m packet_modifier" and S :: "'s socket" and ok :: "'r \<Rightarrow> bool"
    and config_ok :: "config \<Rightarrow> bool"
where
  sr_new: "server_new config clk = Some (v, clk') \<Longrightarrow> valid_settings config \<Longrightarrow> config_ok config \<Longrightarrow>
    server_reachable R M S ok config_ok v"
| sr_listen: "server_reachable R M S ok config_ok v \<Longrightarrow> server_listen S resolve v = Some (r, v') \<Longrightarrow>
    server_reachable R M S ok config_ok v'"
| sr_receive: "server_reachable R M S ok config_ok v \<Longrightarrow>
    server_accept_receive R M S random clk v = Some (r', v', clk') \<Longrightarrow> server_reachable R M S ok config_ok v'"
| sr_send: "server_reachable R M S ok config_ok v \<Longrightarrow> distinct order \<Longrightarrow>
    set order = dom (sv_connections v) - set (sv_dropped v) \<Longrightarrow>
    server_send R M S order auto clk v = Some (r, sleep, v', clk') \<Longrightarrow> server_reachable R M S ok config_ok v'"
| sr_shutdown: "server_reachable R M S ok config_ok v \<Longrightarrow> server_shutdown clk v = (r, v', clk') \<Longrightarrow>
    server_reachable R M S ok config_ok v'"
| sr_config: "server_reachable R M S ok config_ok v \<Longrightarrow> server_set_config config v = Some v' \<Longrightarrow>
    valid_settings config \<Longrightarrow> config_ok config \<Longrightarrow> server_reachable R M S ok config_ok v'"
| sr_connection: "server_reachable R M S ok config_ok v \<Longrightarrow> quiet_use ok use \<Longrightarrow>
    server_reachable R M S ok config_ok (snd (server_connection i (\<lambda>c. ((), use c)) v))"
| sr_socket: "server_reachable R M S ok config_ok v \<Longrightarrow>
    server_reachable R M S ok config_ok (snd (server_socket (\<lambda>s. ((), use' s)) v))"

lemma server_socket_keeps:
  "server_ok ok config_ok v \<Longrightarrow> server_ok ok config_ok (snd (server_socket use v))"
  by (cases "sv_socket v") (auto simp: server_socket_def split_beta server_ok_def)

context rate_limiter_laws
begin

lemma server_reachable_ok:
  fixes M :: "'m packet_modifier" and S :: "'s socket"
  shows "server_reachable R M S invar valid_config v \<Longrightarrow> server_ok invar valid_config v"
proof (induction rule: server_reachable.induct)
  case (sr_new config clk v clk')
  then show ?case by (auto simp: server_new_def server_ok_def bind_Some_iff)
next
  case (sr_listen v resolve r v')
  then show ?case using server_listen_keeps by blast
next
  case (sr_receive v random clk r v' clk')
  then show ?case using server_accept_receive_keeps new_invar by blast
next
  case (sr_send v order auto clk r sleep v' clk')
  then show ?case using server_send_keeps by blast
next
  case (sr_shutdown v clk r v' clk')
  then show ?case using server_shutdown_keeps by blast
next
  case (sr_config v config v')
  then show ?case using server_set_config_keeps by blast
qed (simp_all add: server_connection_keeps server_socket_keeps)

end

lemmas binary_server_ok = binary.server_reachable_ok
lemmas binary_server_send_ok = binary.server_send_ok

subsection \<open>Properties\<close>

text \<open>C11: In every reachable state the two maps of a server agree: a connection has an address exactly when it
  is there, the address is the one the connection knows its peer by, its id is its key, its configuration
  the server's, and it is in the state invariant under which it does not panic. The connections to be dropped are there, each
  once. So neither the \<open>unwrap\<close> and the index in \<open>send\<close> nor those in \<open>accept_receive\<close> fail.\<close>

theorem server_stays_consistent:
  assumes "server_reachable binary_limiter M S binary_invar binary_valid v"
  shows "dom (sv_addresses v) = dom (sv_connections v) \<and>
    distinct (sv_dropped v) \<and> set (sv_dropped v) \<subseteq> dom (sv_connections v) \<and>
    (\<forall>i c. sv_connections v i = Some c \<longrightarrow>
       random_id c = i \<and> sv_addresses v i = Some (peer_address c) \<and> cn_config c = sv_config v \<and>
       conn_invar binary_invar c)"
  using binary_server_ok [OF assms] unfolding server_ok_def served_def by fastforce

text \<open>C12: Whatever datagrams arrive, from whomever, the receive loop of a listening server over UDP does not panic and
  only ever adds connections, and it ends, provided that sooner or later a call finds no datagram. The proviso
  is needed: a socket that finds one at every call keeps the loop going for ever (\<open>endless_arrivals\<close>).\<close>

theorem server_receive_loop_returns:
  fixes v :: "(udp_socket, binary_rate_limiter, 'm) server"
  assumes "server_reachable binary_limiter M (udp_ops os) binary_invar binary_valid v"
    and "sv_local_address v \<noteq> None" "isl (waiting s !! n)"
  shows "\<exists>received v' clk' s'.
    recv_loop (udp_ops os) (server_packet binary_limiter M random) s (0, v, clk) =
      Some ((received, v', clk'), s') \<and>
    dom (sv_connections v) \<subseteq> dom (sv_connections v') \<and> dom (sv_addresses v') = dom (sv_connections v') \<and>
    sv_dropped v' = sv_dropped v"
proof -
  let ?P = "\<lambda>(n :: nat, w :: (udp_socket, binary_rate_limiter, 'm) server, clk :: clock).
    server_ok binary_invar binary_valid w \<and> sv_local_address w \<noteq> None \<and> dom (sv_connections v) \<subseteq> dom (sv_connections w) \<and> sv_dropped w = sv_dropped v"
  have "\<exists>a' s'. recv_loop (udp_ops os) (server_packet binary_limiter M random) s (0, v, clk) = Some (a', s') \<and>
    ?P a' \<and> length (us_buffer s') = length (us_buffer s) \<and> outbound (us_socket s') = outbound (us_socket s)"
  proof (rule udp.recv_loop_total)
    fix addr packet a
    assume P: "?P a"
    obtain n w clk where a: "a = (n, w, clk)" by (cases a) auto
    have w: "server_ok binary_invar binary_valid w" "sv_local_address w \<noteq> None" using P by (simp_all add: a)
    obtain n' w' clk' where "server_packet binary_limiter M random addr packet (n, w, clk) = Some (n', w', clk')"
      "server_ok binary_invar binary_valid w'" "dom (sv_connections w) \<subseteq> dom (sv_connections w')"
      "sv_local_address w' = sv_local_address w" "sv_dropped w' = sv_dropped w"
      by (rule server_packet_ok [OF w binary.new_invar])
    moreover from P this(3) have "dom (sv_connections v) \<subseteq> dom (sv_connections w')"
      unfolding a prod.case by (elim conjE) (rule subset_trans)
    ultimately show "\<exists>a'. server_packet binary_limiter M random addr packet a = Some a' \<and> ?P a'"
      using P by (intro exI [of _ "(n', w', clk')"]) (simp add: a)
  qed (use binary_server_ok [OF assms(1)] assms(2,3) in \<open>auto simp: pauses_def\<close>)
  then obtain received v' clk' s' where
    "recv_loop (udp_ops os) (server_packet binary_limiter M random) s (0, v, clk) = Some ((received, v', clk'), s')"
    "server_ok binary_invar binary_valid v'" "dom (sv_connections v) \<subseteq> dom (sv_connections v')" "sv_dropped v' = sv_dropped v"
    by auto
  then show ?thesis unfolding server_ok_def by blast
qed

text \<open>C20: A packet concerns only the connection whose id it carries: all other connections and addresses stay
  as they are. A known connection's address becomes the sender's when the connection accepts the packet,
  and stays otherwise, so that a stale or foreign packet does not divert it.\<close>

theorem packets_are_isolated:
  assumes "server_reachable binary_limiter M S binary_invar binary_valid v" "sv_local_address v \<noteq> None"
  shows "\<exists>n' v' clk'. server_packet binary_limiter M random addr packet (n, v, clk) = Some (n', v', clk') \<and>
    n \<le> n' \<and> n' \<le> n + length packet \<and>
    (\<forall>j. id_from_packet (sv_config v) packet \<noteq> Some j \<longrightarrow>
       sv_connections v' j = sv_connections v j \<and> sv_addresses v' j = sv_addresses v j) \<and>
    (\<forall>i c accepted c' clk1. id_from_packet (sv_config v) packet = Some i \<longrightarrow> sv_connections v i = Some c \<longrightarrow>
       receive_packet M packet clk c = Some (accepted, c', clk1) \<longrightarrow>
       sv_addresses v' i = Some (if accepted then addr else peer_address c))"
proof (cases "id_from_packet (sv_config v) packet")
  case None
  then show ?thesis by (simp add: server_packet_def)
next
  case (Some i)
  show ?thesis
  proof (rule receive_connection_packet_spec [OF binary_server_ok [OF assms(1)] assms(2) binary.new_invar,
        of M random i addr packet clk], goal_cases)
    case (2 c addr' events v' clk')
    from 2(1) Some have "server_packet binary_limiter M random addr packet (n, v, clk) = Some (n + length packet, v', clk')"
      by (simp add: server_packet_def)
    then show ?case using Some 2(4) by (intro exI [of _ "n + length packet"] exI [of _ v'] exI [of _ clk']) (auto simp: 2(2))
  qed
qed

text \<open>C19: A connection that ends is dropped in two steps: \<open>send\<close> removes the connections dropped by the \<open>send\<close>
  before and their addresses, keeps all others, and marks exactly those that are not open any more; so an
  ended connection and its address are gone after the second \<open>send\<close>, and an open one never is.\<close>

theorem ended_connections_are_removed:
  assumes "server_reachable binary_limiter M S binary_invar binary_valid v" "sv_socket v \<noteq> None"
    and "distinct order" "set order = dom (sv_connections v) - set (sv_dropped v)"
    and "server_send binary_limiter M S order auto clk v = Some (r, sleep, v', clk')"
  shows "dom (sv_connections v') = dom (sv_connections v) - set (sv_dropped v) \<and>
    dom (sv_addresses v') = dom (sv_connections v') \<and>
    set (sv_dropped v') = {i \<in> dom (sv_connections v'). \<not> connection_open (the (sv_connections v' i))}"
proof -
  note l = binary_server_send_ok [OF binary_server_ok [OF assms(1)] assms(3-5,2)]
  then have "dom (sv_addresses v') = dom (sv_connections v')" unfolding server_ok_def by blast
  with l assms(4) show ?thesis by auto
qed

text \<open>C29: One datagram stops a server. A packet of 8 to 13 bytes that starts with the protocol header opens a
  connection, which does not accept it and stays connecting; the connection attempt fails at the first
  \<open>send\<close> after the initial threshold, an event the server declares unreachable: \<open>send\<close> panics.\<close>

theorem short_packet_panics:
  assumes "sv_socket v = Some s" "sv_local_address v \<noteq> None" "sv_dropped v = []"
    and "id_from_packet (sv_config v) packet = Some i" "length packet < 14" "sv_connections v i = None"
    and "clk2 0 - snd (rl_new R (sv_config v) clk) 0 > connection_init_threshold (sv_config v)"
  shows "\<exists>v' clk'. server_packet R M random addr packet (n, v, clk) = Some (n + length packet, v', clk') \<and>
    server_send R M S (i # order) auto clk2 v' = None"
proof -
  obtain local_addr where l: "sv_local_address v = Some local_addr" using assms(2) by blast
  obtain limiter clk0 where r: "rl_new R (sv_config v) clk = (limiter, clk0)" by force
  obtain c0 clk1 where d:
    "connection_new (sv_config v) local_addr addr limiter (pm_new M (sv_config v)) random clk0 = (c0, clk1)" by force
  let ?c = "set_id i c0"
  have c: "cn_state ?c = Connecting" "cn_config ?c = sv_config v" "last_receive_time ?c = clk0 0"
    using d by (auto simp: connection_new_def set_id_def)
  let ?v = "v\<lparr>sv_connections := (sv_connections v)(i \<mapsto> ?c), sv_addresses := (sv_addresses v)(i \<mapsto> addr)\<rparr>"
  have "receive_packet M packet clk1 ?c = Some (False, ?c, clk1)"
    using assms(5) by (simp add: receive_packet_def PACKET_HEADER_SIZE_def)
  then have p: "server_packet R M random addr packet (n, v, clk) = Some (n + length packet, ?v, clk1)"
    using assms(4,6) by (simp add: server_packet_def receive_connection_packet_def l r d)
  have "clk2 0 - last_receive_time ?c > receive_deadline ?c" "\<not> final (cn_state ?c)"
    using assms(7) by (simp_all add: receive_deadline_def final_def c r)
  with missed_deadline [of ?c clk2 R M S addr s] obtain c' where
    "send_packet R M S addr clk2 ?c s = Some (0, c', s, clock_skip 2 clk2)" "\<not> connection_open c'"
    "cn_events c' = cn_events ?c @ [FailedToConnect_Event]"
    by (auto simp: c(1) open_iff)
  moreover from this(3) have "map_connection_events (sv_events ?v) c' = None"
    by (simp add: map_connection_events_def connection_events_def split_beta push_events_failed)
  ultimately have "send_connection R M S i (0, s, ?v, clk2) = None"
    by (simp add: send_connection_def checked_add_u32_def)
  moreover have e: "?v\<lparr>sv_dropped := []\<rparr> = ?v" using assms(3) by (intro server.equality) simp_all
  have "remove_dropped R (sv_dropped v) clk2 ?v = Some (?v, clk2)" unfolding assms(3) remove_dropped.simps e ..
  ultimately have "server_send R M S (i # order) auto clk2 ?v = None" using assms(1) by (simp add: server_send_def)
  with p show ?thesis by blast
qed

subsection \<open>Examples\<close>

lemma server_listens:
  "\<exists>v clk v'. server_new default_config (\<lambda>_. 0) = Some (v, clk) \<and>
     server_listen (udp_ops idle_os) (Inr [any_addr]) v = Some (Inr (), v') \<and>
     sv_socket v' \<noteq> None \<and> sv_local_address v' = Some any_addr \<and> sv_dropped v' = [] \<and>
     sv_connections v' = Map.empty \<and> sv_config v' = default_config \<and> sv_stats_collector v' = collector_new default_config"
  by (auto simp: server_new_def ticker_new_def server_listen_def udp_ops_def udp_new_def fresh_os_def)

lemma listening_server:
  obtains v :: "(udp_socket, binary_rate_limiter, noop_packet_modifier) server" where
    "server_reachable binary_limiter noop_modifier (udp_ops idle_os) binary_invar binary_valid v"
    "sv_socket v \<noteq> None" "sv_local_address v = Some any_addr" "sv_dropped v = []"
    "sv_connections v = Map.empty" "sv_config v = default_config" "sv_stats_collector v = collector_new default_config"
proof -
  obtain v clk v' where
    v: "server_new default_config (\<lambda>_. 0) = Some (v :: (udp_socket, binary_rate_limiter, noop_packet_modifier) server, clk)"
      "server_listen (udp_ops idle_os) (Inr [any_addr]) v = Some (Inr (), v')"
    and f: "sv_socket v' \<noteq> None" "sv_local_address v' = Some any_addr" "sv_dropped v' = []"
      "sv_connections v' = Map.empty" "sv_config v' = default_config" "sv_stats_collector v' = collector_new default_config"
    using server_listens by blast
  have "server_reachable binary_limiter noop_modifier (udp_ops idle_os) binary_invar binary_valid v'"
    by (rule sr_listen [OF sr_new [OF v(1)] v(2)]) simp_all
  with f that show thesis by blast
qed

theorem server_stays_consistent_witness:
  "\<exists>v :: (udp_socket, binary_rate_limiter, noop_packet_modifier) server.
     sv_socket v \<noteq> None \<and> dom (sv_addresses v) = dom (sv_connections v)"
  by (rule listening_server) (use server_stays_consistent in blast)

theorem server_receive_loop_returns_witness:
  "\<exists>(v :: (udp_socket, binary_rate_limiter, noop_packet_modifier) server) received v' clk' s'.
    recv_loop (udp_ops idle_os) (server_packet binary_limiter noop_modifier 0)
      (fresh_socket\<lparr>us_socket := \<lparr>ns_addr = Inr any_addr,
         inbound = Inr (any_addr, [1, 2, 3, 4, 5, 6, 7, 8, 9]) ## silence, outbound = [], send_faults = []\<rparr>\<rparr>) (0, v, \<lambda>_. 0) = Some ((received, v', clk'), s')"
proof (rule listening_server)
  fix v :: "(udp_socket, binary_rate_limiter, noop_packet_modifier) server"
  assume v: "server_reachable binary_limiter noop_modifier (udp_ops idle_os) binary_invar binary_valid v"
    "sv_local_address v = Some any_addr"
  then have listening: "sv_local_address v \<noteq> None" by simp
  let ?s = "fresh_socket\<lparr>us_socket := \<lparr>ns_addr = Inr any_addr,
    inbound = Inr (any_addr, [1, 2, 3, 4, 5, 6, 7, 8, 9]) ## silence, outbound = [], send_faults = []\<rparr>\<rparr>"
  have "isl (waiting ?s !! 1)" by simp
  from server_receive_loop_returns [OF v(1) listening this] show ?thesis by blast
qed

theorem packets_are_isolated_witness:
  "\<exists>(v :: (udp_socket, binary_rate_limiter, noop_packet_modifier) server) n' v' clk'.
    server_packet binary_limiter noop_modifier 0 any_addr [1, 2, 3, 4, 0, 0, 0, 9, 0, 0, 0, 0, 0, 0] (0, v, \<lambda>_. 0) =
      Some (n', v', clk') \<and>
    n' \<le> 14 \<and> sv_addresses v' (ConnectionID 5) = sv_addresses v (ConnectionID 5)"
proof (rule listening_server)
  fix v :: "(udp_socket, binary_rate_limiter, noop_packet_modifier) server"
  assume v: "server_reachable binary_limiter noop_modifier (udp_ops idle_os) binary_invar binary_valid v"
    "sv_local_address v = Some any_addr" "sv_config v = default_config"
  have "id_from_packet (sv_config v) [1, 2, 3, 4, 0, 0, 0, 9, 0, 0, 0, 0, 0, 0] \<noteq> Some (ConnectionID 5)"
    by (simp add: v(3) id_from_packet_def u32_of_bytes_def)
  then show ?thesis
    using packets_are_isolated [OF v(1), of 0 any_addr "[1, 2, 3, 4, 0, 0, 0, 9, 0, 0, 0, 0, 0, 0]" 0 "\<lambda>_. 0"] v(2)
    by fastforce
qed

theorem short_packet_panics_witness:
  "\<exists>(v :: (udp_socket, binary_rate_limiter, noop_packet_modifier) server) v' clk'.
    server_packet binary_limiter noop_modifier 0 any_addr [1, 2, 3, 4, 0, 0, 0, 9] (0, v, \<lambda>_. 0) = Some (8, v', clk') \<and>
    server_send binary_limiter noop_modifier (udp_ops idle_os) [ConnectionID 9] True (\<lambda>_. 100000001) v' = None"
proof (rule listening_server)
  fix v :: "(udp_socket, binary_rate_limiter, noop_packet_modifier) server"
  assume v: "sv_socket v \<noteq> None" "sv_local_address v = Some any_addr" "sv_dropped v = []"
    "sv_connections v = Map.empty" "sv_config v = default_config"
  obtain s where s: "sv_socket v = Some s" using v(1) by blast
  have i: "id_from_packet (sv_config v) [1, 2, 3, 4, 0, 0, 0, 9] = Some (ConnectionID 9)"
    by (simp add: v(5) id_from_packet_def u32_of_bytes_def)
  have "\<exists>v' clk'. server_packet binary_limiter noop_modifier 0 any_addr [1, 2, 3, 4, 0, 0, 0, 9] (0, v, \<lambda>_. 0) =
      Some (0 + length [1, 2, 3, 4, 0, 0, 0, 9 :: u8], v', clk') \<and>
    server_send binary_limiter noop_modifier (udp_ops idle_os) (ConnectionID 9 # []) True (\<lambda>_. 100000001) v' = None"
    by (rule short_packet_panics [OF s _ v(3) i]) (simp_all add: v(2,4,5) binary_limiter_simps binary_new_def)
  moreover have "0 + length [1, 2, 3, 4, 0, 0, 0, 9 :: u8] = 8" by simp
  ultimately show ?thesis by metis
qed

theorem ended_connections_are_removed_witness:
  "\<exists>(v :: (udp_socket, binary_rate_limiter, noop_packet_modifier) server) v' clk'.
    server_send binary_limiter noop_modifier (udp_ops idle_os) [] False (\<lambda>_. 7) v = Some (Inr (), 0, v', clk') \<and>
    sv_dropped v' = [] \<and> dom (sv_addresses v') = dom (sv_connections v')"
proof (rule listening_server)
  fix v :: "(udp_socket, binary_rate_limiter, noop_packet_modifier) server"
  assume v: "server_reachable binary_limiter noop_modifier (udp_ops idle_os) binary_invar binary_valid v"
    "sv_socket v \<noteq> None" "sv_dropped v = []" "sv_connections v = Map.empty"
    "sv_stats_collector v = collector_new default_config"
  obtain s where s: "sv_socket v = Some s" using v(2) by blast
  have "empty_ring (collector_new default_config)" by (simp add: empty_ring_def collector_new_def)
  note idle = empty_ring_idle(2) [OF this]
  obtain v' clk' where w: "server_send binary_limiter noop_modifier (udp_ops idle_os) [] False (\<lambda>_. 7) v = Some (Inr (), 0, v', clk')"
    by (simp add: server_send_def s v(3,5) idle Let_def)
  have "set [] = dom (sv_connections v) - set (sv_dropped v)" by (simp add: v(4))
  note l = ended_connections_are_removed [OF v(1,2) distinct.simps(1) [THEN iffD2, OF TrueI] this w]
  have d: "dom (sv_connections v') = {}" using l by (simp add: v(4))
  have "sv_dropped v' = []" using l unfolding d by simp
  with l w show ?thesis by blast
qed

end
