(* ===== verification/Server_Ticks.thy ===== *)
theory Server_Ticks
  imports Server_Properties Udp_Rounds
begin

text \<open>
  The rounds of a server over UDP with the no-op modifier, as for the client in \<open>Client_Ticks\<close>. A server also
  needs that no datagram is too short for a packet, for it would open a connection that never connects, and
  a bound on the number of connections, for they share the statistics: all ids that ever arrive are in a
  given finite set.
\<close>

subsection \<open>The connections of a server\<close>

text \<open>A connection that has got its first packet.\<close>

definition settled :: "('r, 'm) connection \<Rightarrow> bool" where
  "settled c \<longleftrightarrow> plain_ok c \<and> cn_state c \<noteq> Connecting"

lemma settled_simple_ops:
  "settled c \<Longrightarrow> settled (snd (connection_events c))"
  "settled c \<Longrightarrow> settled (set_peer_addr addr c)"
  "settled c \<Longrightarrow> length payload < 65536 \<Longrightarrow> settled (connection_send kind payload c)"
  by (auto simp: settled_def plain_ok_events plain_ok_send connection_events_fields)
    (simp_all add: plain_ok_def set_peer_addr_def connection_send_def)

lemma settled_receive:
  assumes "conn_invar ok c" "settled c" "receive_packet M packet clk c = Some (accepted, c', clk')"
  shows "settled c'"
proof -
  obtain es where "run_events (cn_state c) es = Some (cn_state c')"
    using receive_packet_follows [OF assms(1,3)] by (auto simp: follows_def)
  with assms(2) have "cn_state c' \<noteq> Connecting" by (auto simp: settled_def dest: run_events_started)
  with assms plain_ok_receive show ?thesis by (auto simp: settled_def)
qed

text \<open>The first packet of a connection, if it is long enough and for this protocol, settles it.\<close>

lemma settled_first:
  assumes "conn_invar ok c" "plain_ok c" "cn_state c = Connecting" "14 \<le> length packet"
    and "take 4 packet = header_bytes (protocol_header (cn_config c))"
    and "receive_packet M packet clk c = Some (accepted, c', clk')"
  shows "accepted" "settled c'"
proof -
  obtain replacement modifier where
    m: "pm_incoming M (drop PACKET_HEADER_SIZE packet) (cn_modifier c) = (replacement, modifier)" by force
  have len: "PACKET_HEADER_SIZE \<le> length packet" using assms(4) by (simp add: PACKET_HEADER_SIZE_def)
  have u: "fst (update_receive_state packet c)" "cn_state (snd (update_receive_state packet c)) = Connected"
    using assms(3,5) by (simp_all add: update_receive_state_def push_event_def)
  have "accepted \<and> cn_state c' = Connected"
    by (rule receive_packet_accepted [OF assms(1) len u(1) m refl, of clk]) (use assms(6) u(2) in auto)
  with plain_ok_receive [OF assms(1,2,6)] show "accepted" "settled c'" by (simp_all add: settled_def)
qed

fun event_id :: "server_event \<Rightarrow> connection_id" where
  "event_id (Server_Connection i) = i"
| "event_id (Server_ConnectionLost i _) = i"
| "event_id (Server_ConnectionClosed i _) = i"
| "event_id (Server_Message i _) = i"
| "event_id (Server_ConnectionCongestionStateChanged i _) = i"
| "event_id (Server_PacketLost i _) = i"

lemma server_event_of_id: "server_event_of i e = Some e' \<Longrightarrow> event_id e' = i"
  by (cases e) auto

lemma push_events_id:
  "push_events i es events = Some events' \<Longrightarrow> event_id ` set events' \<subseteq> insert i (event_id ` set events)"
proof (induction es arbitrary: events)
  case (Cons e es)
  then obtain e' where e: "server_event_of i e = Some e'" "push_events i es (events @ [e']) = Some events'"
    by (auto simp: bind_Some_iff)
  from Cons.IH [OF e(2)] server_event_of_id [OF e(1)] show ?case by auto
qed auto

lemma map_connection_events_id:
  "map_connection_events events c = Some (events', c') \<Longrightarrow>
   event_id ` set events' \<subseteq> insert (random_id c) (event_id ` set events)"
  by (auto simp: map_connection_events_def bind_Some_iff split_beta dest!: push_events_id)

text \<open>The server apart from its socket, its statistics and its ticker.\<close>

type_synonym udp_server = "(udp_socket, binary_rate_limiter, noop_packet_modifier) server"

definition serving :: "config \<Rightarrow> connection_id set \<Rightarrow> udp_server \<Rightarrow> bool" where
  "serving config ids v \<longleftrightarrow>
     server_ok binary_invar binary_valid v \<and> sv_config v = config \<and> sv_local_address v \<noteq> None \<and>
     (\<forall>i c. sv_connections v i = Some c \<longrightarrow> i \<in> ids \<and> settled c) \<and>
     event_id ` set (sv_events v) \<subseteq> dom (sv_connections v)"

lemma server_ok_served:
  "server_ok ok config_ok v \<Longrightarrow> sv_connections v i = Some c \<Longrightarrow>
   \<exists>addr. sv_addresses v i = Some addr \<and> served ok (sv_config v) i addr c"
  unfolding server_ok_def by blast

lemma servingE:
  assumes "serving config ids v" "sv_connections v i = Some c"
  obtains addr where "sv_addresses v i = Some addr" "served binary_invar config i addr c" "settled c" "i \<in> ids"
    "conn_invar binary_invar c" "random_id c = i" "cn_config c = config"
proof -
  have v: "server_ok binary_invar binary_valid v" "sv_config v = config" "settled c" "i \<in> ids"
    using assms by (auto simp: serving_def)
  with server_ok_served [OF v(1) assms(2)] that show thesis by (auto simp: served_def)
qed

subsection \<open>Receiving\<close>

lemma receive_connection_packet_settled:
  assumes "serving config ids v" "14 \<le> length packet" "take 4 packet = header_bytes (protocol_header config)"
    and "receive_connection_packet binary_limiter M random i addr packet clk v = Some (n, v', clk')"
  shows "\<exists>c. sv_connections v' i = Some c \<and> settled c \<and>
    event_id ` set (sv_events v') \<subseteq> insert i (event_id ` set (sv_events v))"
proof (cases "sv_connections v i")
  case (Some c0)
  obtain addr0 where s: "served binary_invar config i addr0 c0"
    and c0: "conn_invar binary_invar c0" "settled c0"
    by (rule servingE [OF assms(1) Some])
  obtain accepted c1 clk1 where r: "receive_packet M packet clk c0 = Some (accepted, c1, clk1)"
    "same_peer c0 c1"
    by (rule receive_packet_invar [OF c0(1), of M packet clk])
  let ?c = "if accepted \<and> addr \<noteq> peer_address c1 then set_peer_addr addr c1 else c1"
  have "settled c1" by (rule settled_receive [OF c0 r(1)])
  then have c: "settled ?c" "random_id ?c = i"
    using settled_simple_ops(2) r(2) s by (auto simp: same_peer_def served_def set_peer_addr_def)
  from assms(4) obtain events c2 where e: "map_connection_events (sv_events v) ?c = Some (events, c2)"
    "sv_connections v' = (sv_connections v)(i \<mapsto> c2)" "sv_events v' = events"
    by (auto simp: receive_connection_packet_def Some r(1) Let_def bind_Some_iff)
  from map_connection_events_id [OF e(1)] map_connection_events_drain [OF e(1)] settled_simple_ops(1) [OF c(1)] c(2)
  show ?thesis by (auto simp: e(2,3))
next
  case None
  obtain local_addr where l: "sv_local_address v = Some local_addr" using assms(1) by (auto simp: serving_def)
  obtain limiter clk0 where n: "rl_new binary_limiter config clk = (limiter, clk0)" by force
  let ?new = "connection_new config local_addr addr limiter (pm_new M config) random clk0"
  let ?c0 = "set_id i (fst ?new)"
  have v: "valid_settings config" "binary_valid config" "sv_config v = config"
    using assms(1) by (auto simp: serving_def server_ok_def)
  have "served binary_invar config i addr ?c0"
    by (rule served_new [OF v(1)]) (use binary.new_invar [OF v(2), of clk] n in simp)
  then have c0: "conn_invar binary_invar ?c0" "random_id ?c0 = i" "cn_config ?c0 = config" by (simp_all add: served_def)
  have "plain_ok ?c0" using plain_ok_new by (simp add: plain_ok_def set_id_def)
  moreover have "cn_state ?c0 = Connecting" by (simp add: set_id_def connection_new_def)
  moreover obtain accepted c1 clk1 where r: "receive_packet M packet (snd ?new) ?c0 = Some (accepted, c1, clk1)"
    "same_peer ?c0 c1"
    by (rule receive_packet_invar [OF c0(1), of M packet "snd ?new"])
  ultimately have c1: "accepted" "settled c1"
    using settled_first [OF c0(1) _ _ assms(2) _ r(1)] assms(3) c0(3) by auto
  from assms(4) obtain events c2 where e: "map_connection_events (sv_events v) c1 = Some (events, c2)"
    "sv_connections v' = (sv_connections v)(i \<mapsto> c2)" "sv_events v' = events"
    using r(1) c1(1) n by (auto simp: receive_connection_packet_def None l v(3) split_beta bind_Some_iff)
  have "random_id c1 = i" using r(2) c0(2) by (simp add: same_peer_def)
  with map_connection_events_id [OF e(1)] map_connection_events_drain [OF e(1)] settled_simple_ops(1) [OF c1(2)]
  show ?thesis by (auto simp: e(2,3))
qed

text \<open>A packet as it should be: long enough, and with one of the ids.\<close>

definition fair_packet :: "config \<Rightarrow> connection_id set \<Rightarrow> bytes \<Rightarrow> bool" where
  "fair_packet config ids packet \<longleftrightarrow>
     (\<forall>i. id_from_packet config packet = Some i \<longrightarrow> 14 \<le> length packet \<and> i \<in> ids)"

text \<open>What a run of the receive loop leaves alone.\<close>

definition same_frame :: "udp_server \<Rightarrow> udp_server \<Rightarrow> bool" where
  "same_frame v v' \<longleftrightarrow> sv_socket v' = sv_socket v \<and> sv_ticker v' = sv_ticker v \<and>
     sv_stats_collector v' = sv_stats_collector v \<and> sv_should_receive v' = sv_should_receive v"

lemma serving_packet:
  assumes "serving config ids v" "fair_packet config ids packet"
  shows "\<exists>n' v' clk'. server_packet binary_limiter M random addr packet (n, v, clk) = Some (n', v', clk') \<and>
    n' \<le> n + length packet \<and> serving config ids v' \<and> same_frame v v'"
proof (cases "id_from_packet config packet")
  case None
  with assms(1) show ?thesis by (simp add: server_packet_def serving_def same_frame_def)
next
  case (Some i)
  have v: "server_ok binary_invar binary_valid v" "sv_local_address v \<noteq> None" "sv_config v = config"
    using assms(1) by (auto simp: serving_def)
  have p: "14 \<le> length packet" "i \<in> ids" "take 4 packet = header_bytes (protocol_header config)"
    using assms(2) Some by (auto simp: fair_packet_def id_from_packet_def split: if_splits)
  show ?thesis
  proof (rule receive_connection_packet_spec [OF v(1,2) binary.new_invar, of M random i addr packet clk], goal_cases)
    case (2 c addr' events v' clk')
    obtain c' where c': "sv_connections v' i = Some c'" "settled c'"
      "event_id ` set (sv_events v') \<subseteq> insert i (event_id ` set (sv_events v))"
      using receive_connection_packet_settled [OF assms(1) p(1,3) 2(1)] by blast
    have "event_id ` set (sv_events v') \<subseteq> insert i (dom (sv_connections v))"
      using c'(3) assms(1) unfolding serving_def by blast
    then have "event_id ` set (sv_events v') \<subseteq> dom (sv_connections v')" by (simp add: 2(2))
    moreover have "j \<in> ids \<and> settled d" if "sv_connections v' j = Some d" for j d
      using that assms(1) c'(1,2) p(2) by (cases "j = i") (auto simp: serving_def 2(2))
    ultimately have "serving config ids v'"
      using 2(3) v(2,3) by (simp add: serving_def 2(2))
    with 2(1,2) Some v(3) show ?case by (auto simp: server_packet_def same_frame_def)
  qed
qed

lemma same_frame_trans: "same_frame v v1 \<Longrightarrow> same_frame v1 v2 \<Longrightarrow> same_frame v v2"
  by (simp add: same_frame_def)

lemma server_packets_run:
  "serving config ids v \<Longrightarrow> \<forall>p \<in> set ps. fair_packet config ids (snd p) \<Longrightarrow>
   \<exists>n' v' clk'. run_body (server_packet binary_limiter M random) ps (n, v, clk) = Some (n', v', clk') \<and>
     n' \<le> n + sum_list (map (length \<circ> snd) ps) \<and> serving config ids v' \<and> same_frame v v'"
proof (induction ps arbitrary: n v clk)
  case (Cons p ps)
  from serving_packet [OF Cons.prems(1), of "snd p" M random "fst p" n clk] Cons.prems(2) obtain n1 v1 clk1 where
    1: "server_packet binary_limiter M random (fst p) (snd p) (n, v, clk) = Some (n1, v1, clk1)"
    "n1 \<le> n + length (snd p)" "serving config ids v1" "same_frame v v1"
    by auto
  from Cons.IH [OF 1(3), of n1 clk1] Cons.prems(2) obtain n2 v2 clk2 where
    "run_body (server_packet binary_limiter M random) ps (n1, v1, clk1) = Some (n2, v2, clk2)"
    "n2 \<le> n1 + sum_list (map (length \<circ> snd) ps)" "serving config ids v2" "same_frame v1 v2"
    by (auto simp: o_def)
  with 1 same_frame_trans [OF 1(4)] show ?case by (simp add: o_def)
qed (simp add: same_frame_def)

text \<open>The arrivals as they should be, and the socket with them.\<close>

definition fair_arrivals :: "config \<Rightarrow> connection_id set \<Rightarrow> arrivals \<Rightarrow> bool" where
  "fair_arrivals config ids arrivals \<longleftrightarrow>
     (\<forall>src datagram. Inr (src, datagram) \<in> sset arrivals \<longrightarrow> fair_packet config ids datagram)"

definition socket_ready :: "config \<Rightarrow> nat \<Rightarrow> connection_id set \<Rightarrow> udp_socket \<Rightarrow> bool" where
  "socket_ready config b ids s \<longleftrightarrow>
     bursts_within b 0 (waiting s) \<and> fair_arrivals config ids (waiting s) \<and> 14 \<le> length (us_buffer s)"

lemma fair_packet_take:
  assumes "fair_packet config ids datagram" "14 \<le> n"
  shows "fair_packet config ids (take n datagram)"
proof -
  have "id_from_packet config (take n datagram) = id_from_packet config datagram"
    using assms(2) by (auto simp: id_from_packet_def min_def)
  with assms show ?thesis by (auto simp: fair_packet_def)
qed

lemma cut_from_fair: "socket_ready config b ids s \<Longrightarrow> cut_from s p \<Longrightarrow> fair_packet config ids (snd p)"
  unfolding socket_ready_def cut_from_def fair_arrivals_def by (metis fair_packet_take)

lemma socket_ready_inbox: "socket_ready config b ids s \<Longrightarrow> same_inbox s s' \<Longrightarrow> socket_ready config b ids s'"
  by (simp add: socket_ready_def same_inbox_def)

text \<open>The server between two rounds, and within one when everything has been received.\<close>

definition server_rested :: "config \<Rightarrow> nat \<Rightarrow> connection_id set \<Rightarrow> udp_server \<Rightarrow> bool" where
  "server_rested config b ids v \<longleftrightarrow>
     serving config ids v \<and> pacing_ok (sv_ticker v) \<and> stats_ready config b (sv_stats_collector v) \<and>
     sv_should_receive v \<and> (\<exists>s. sv_socket v = Some s \<and> socket_ready config b ids s)"

definition server_received :: "config \<Rightarrow> nat \<Rightarrow> connection_id set \<Rightarrow> udp_server \<Rightarrow> bool" where
  "server_received config b ids v \<longleftrightarrow>
     serving config ids v \<and> pacing_ok (sv_ticker v) \<and> stats_half config b (sv_stats_collector v) \<and>
     \<not> sv_should_receive v \<and> (\<exists>s. sv_socket v = Some s \<and> socket_ready config b ids s)"

lemma serving_fields:
  assumes "serving config ids v" "sv_config v' = sv_config v" "sv_connections v' = sv_connections v"
    "sv_addresses v' = sv_addresses v" "sv_dropped v' = sv_dropped v" "(sv_socket v' = None) = (sv_socket v = None)"
    "sv_local_address v' = sv_local_address v" "set (sv_events v') \<subseteq> set (sv_events v)"
  shows "serving config ids v'"
proof -
  have v: "server_ok binary_invar binary_valid v" "sv_config v = config" "sv_local_address v \<noteq> None"
    "\<forall>i c. sv_connections v i = Some c \<longrightarrow> i \<in> ids \<and> settled c" "event_id ` set (sv_events v) \<subseteq> dom (sv_connections v)"
    using assms(1) unfolding serving_def by blast+
  have "server_ok binary_invar binary_valid v'"
    using v(1) server_ok_fields [OF assms(2-7), of binary_invar binary_valid] by blast
  moreover have "event_id ` set (sv_events v') \<subseteq> dom (sv_connections v')"
    unfolding assms(3) by (rule subset_trans [OF image_mono [OF assms(8)] v(5)])
  ultimately show ?thesis using v(2-4) unfolding serving_def assms(2,3,7) by blast
qed

lemma server_rested_receive_tick:
  assumes "server_rested config b ids v" "rates_ok (send_rate config) b"
  obtains v' clk' where
    "server_receive_tick binary_limiter noop_modifier (udp_ops os) random clk v = Some (v', clk')"
    "server_received config b ids v'"
proof -
  obtain s where v: "serving config ids v" "pacing_ok (sv_ticker v)" "stats_ready config b (sv_stats_collector v)"
    "sv_socket v = Some s" "socket_ready config b ids s"
    using assms(1) by (auto simp: server_rested_def)
  let ?v = "v\<lparr>sv_ticker := fst (begin_tick clk (sv_ticker v))\<rparr>"
  have serving: "serving config ids ?v" by (rule serving_fields [OF v(1)]) simp_all
  have "bursts_within b 0 (waiting s)" using v(5) by (simp add: socket_ready_def)
  from udp_delivers [OF this, of os] obtain ps s' where d: "delivers (udp_ops os) s ps s'"
    "sum_list (map (length \<circ> snd) ps) \<le> b" "bursts_within b 0 (waiting s')" "\<forall>p \<in> set ps. cut_from s p"
    "sset (waiting s') \<subseteq> sset (waiting s)" "length (us_buffer s') = length (us_buffer s)"
    by (auto simp: o_def)
  have "\<forall>p \<in> set ps. fair_packet config ids (snd p)" using d(4) cut_from_fair [OF v(5)] by blast
  from server_packets_run [OF serving this, of noop_modifier random 0 "clock_skip 1 clk"] obtain n v1 clk1 where
    l: "run_body (server_packet binary_limiter noop_modifier random) ps (0, ?v, clock_skip 1 clk) = Some (n, v1, clk1)"
    "n \<le> sum_list (map (length \<circ> snd) ps)" "serving config ids v1" "same_frame ?v v1"
    by auto
  have "unat (word_of_nat n :: u32) \<le> b"
    using l(2) d(2) by (metis le_trans unat_of_nat mod_less_eq_dividend)
  then obtain collector where st: "set_bytes_received (word_of_nat n) (sv_stats_collector v) = Some collector"
    "stats_half config b collector"
    by (rule stats_receive [OF assms(2) v(3)])
  let ?v' = "v1\<lparr>sv_socket := Some s', sv_stats_collector := collector, sv_should_receive := False\<rparr>"
  have tick: "server_receive_tick binary_limiter noop_modifier (udp_ops os) random clk v = Some (?v', clk1)"
    using st(1) l(1,4)
    by (simp add: server_receive_tick_def begin_tick_def v(4) recv_loop_delivers [OF d(1)] same_frame_def)
  have "serving config ids ?v'"
    by (rule serving_fields [OF l(3)]) (use l(4) v(4) in \<open>simp_all add: same_frame_def\<close>)
  moreover have "socket_ready config b ids s'"
    using v(5) d(3,5,6) by (auto simp: socket_ready_def fair_arrivals_def)
  moreover have "pacing_ok (sv_ticker v1)"
    using v(2) l(4) by (simp add: same_frame_def pacing_ok_def begin_tick_def)
  ultimately have "server_received config b ids ?v'"
    using st(2) unfolding server_received_def by (intro conjI exI [of _ s']) simp_all
  with tick show thesis by (rule that)
qed

lemma server_received_events:
  "server_received config b ids v \<Longrightarrow> set es \<subseteq> set (sv_events v) \<Longrightarrow> server_received config b ids (v\<lparr>sv_events := es\<rparr>)"
  using serving_fields [of config ids v "v\<lparr>sv_events := es\<rparr>"] by (auto simp: server_received_def)

lemma server_received_receive:
  "server_received config b ids v \<Longrightarrow>
   server_accept_receive binary_limiter noop_modifier (udp_ops os) random clk v = Some (case sv_events v of
    e # es \<Rightarrow> (Inr e, v\<lparr>sv_events := es\<rparr>, clk) | [] \<Rightarrow> (Inl Empty, v, clk))"
  by (auto simp: server_received_def server_accept_receive_def)

lemma server_rested_receive:
  assumes "server_rested config b ids v" "rates_ok (send_rate config) b"
  obtains v' clk' where
    "server_accept_receive binary_limiter noop_modifier (udp_ops os) random clk v =
       Some (case sv_events v' of e # es \<Rightarrow> (Inr e, v'\<lparr>sv_events := es\<rparr>, clk') | [] \<Rightarrow> (Inl Empty, v', clk'))"
    "server_received config b ids v'"
proof (rule server_rested_receive_tick [OF assms, of os random clk])
  fix v' clk'
  assume "server_receive_tick binary_limiter noop_modifier (udp_ops os) random clk v = Some (v', clk')"
    "server_received config b ids v'"
  moreover have "sv_socket v \<noteq> None" "sv_should_receive v" using assms(1) by (auto simp: server_rested_def)
  ultimately show thesis by (intro that) (auto simp: server_accept_receive_def)
qed

subsection \<open>Sending\<close>

lemma settled_send:
  assumes "conn_invar binary_invar c" "settled c"
    and "send_packet binary_limiter noop_modifier (udp_ops os) addr clk c s = Some (n, c', s', clk')"
  shows "settled c'" "unat n \<le> packet_max_size (cn_config c)" "same_inbox s s'"
    "FailedToConnect_Event \<notin> set (cn_events c) \<Longrightarrow> FailedToConnect_Event \<notin> set (cn_events c')"
proof -
  have plain: "plain_ok c" and start: "cn_state c \<noteq> Connecting" using assms(2) by (simp_all add: settled_def)
  obtain es where es: "cn_events c' = cn_events c @ es" "run_events (cn_state c) es = Some (cn_state c')"
    using binary.send_packet_follows [OF assms(1,3)] by (auto simp: follows_def)
  note e = run_events_started [OF start es(2)]
  note p = binary.plain_ok_send_packet [OF assms(1) plain assms(3)]
  show "settled c'" using e p by (simp add: settled_def)
  show "unat n \<le> packet_max_size (cn_config c)" using p by simp
  show "same_inbox s s'" by (rule binary.send_packet_inbox [OF assms(1,3)])
  show "FailedToConnect_Event \<notin> set (cn_events c) \<Longrightarrow> FailedToConnect_Event \<notin> set (cn_events c')"
    using e by (simp add: es(1))
qed

lemma send_connection_returns:
  assumes "serving config ids v" "i \<in> dom (sv_connections v)" "i \<notin> set (sv_dropped v)"
    and "unat used + packet_max_size config < 2 ^ 32"
  shows "\<exists>used' s' v' clk'.
    send_connection binary_limiter noop_modifier (udp_ops os) i (used, s, v, clk) = Some (used', s', v', clk') \<and>
    unat used' \<le> unat used + packet_max_size config \<and> same_inbox s s' \<and> serving config ids v' \<and> sent_to i v v'"
proof -
  let ?S = "udp_ops os"
  obtain c where c: "sv_connections v i = Some c" using assms(2) by blast
  obtain addr where a: "sv_addresses v i = Some addr" "served binary_invar config i addr c" "settled c" "i \<in> ids"
    "conn_invar binary_invar c" "random_id c = i" "cn_config c = config"
    by (rule servingE [OF assms(1) c])
  obtain n c' s' clk' where p: "send_packet binary_limiter noop_modifier ?S addr clk c s = Some (n, c', s', clk')"
    "conn_invar binary_invar c'" "same_peer c c'"
    by (rule binary.send_packet_invar [OF a(5), of noop_modifier ?S addr clk s])
  have quiet: "FailedToConnect_Event \<notin> set (cn_events c)" using a(2) by (simp add: served_def)
  note t = settled_send(1-3) [OF a(5,3) p(1)] settled_send(4) [OF a(5,3) p(1) quiet]
  have "served binary_invar config i addr c'" by (rule served_same_peer [OF a(2) p(3,2) t(4)])
  then obtain events c2 where e: "map_connection_events (sv_events v) c' = Some (events, c2)"
    by (rule served_events)
  have sum: "checked_add_u32 used n = Some (used + n)" "unat (used + n) = unat used + unat n"
    using t(2) assms(4) a(7) by (simp_all add: checked_add_u32_def unat_word_ariths)
  obtain v' where v': "send_connection binary_limiter noop_modifier ?S i (used, s, v, clk) = Some (used + n, s', v', clk')"
    "sv_connections v' = (sv_connections v)(i \<mapsto> c') \<and> sv_events v' = sv_events v \<or>
     sv_connections v' = (sv_connections v)(i \<mapsto> c2) \<and> sv_events v' = events"
    "sv_local_address v' = sv_local_address v" "sv_config v' = sv_config v"
    using e sum(1) c a(1) p(1) by (cases "connection_open c'") (simp_all add: send_connection_def)
  have ok: "server_ok binary_invar binary_valid v'" "sent_to i v v'"
    using binary.send_connection_ok [OF _ assms(3) v'(1)] assms(1) by (simp_all add: serving_def)
  have c2: "settled c2" using map_connection_events_drain [OF e] settled_simple_ops(1) [OF t(1)] by simp
  have "random_id c' = i" using p(3) a(6) by (simp add: same_peer_def)
  then have "event_id ` set events \<subseteq> insert i (event_id ` set (sv_events v))"
    using map_connection_events_id [OF e] by simp
  moreover have live: "event_id ` set (sv_events v) \<subseteq> dom (sv_connections v)" using assms(1) by (simp add: serving_def)
  ultimately have "event_id ` set events \<subseteq> insert i (dom (sv_connections v))" by (meson insert_mono order_trans)
  then have "event_id ` set (sv_events v') \<subseteq> insert i (dom (sv_connections v))"
    using v'(2) live by (elim disjE conjE) (simp_all add: subset_insertI2)
  moreover have "dom (sv_connections v') = insert i (dom (sv_connections v))"
    using v'(2) by (elim disjE conjE) simp_all
  ultimately have "event_id ` set (sv_events v') \<subseteq> dom (sv_connections v')" by simp
  moreover have "j \<in> ids \<and> settled d" if "sv_connections v' j = Some d" for j d
  proof (cases "j = i")
    case True
    with that v'(2) a(4) t(1) c2 show ?thesis by auto
  next
    case False
    with that v'(2) have "sv_connections v j = Some d" by auto
    with assms(1) show ?thesis unfolding serving_def by blast
  qed
  moreover have "sv_config v = config" "sv_local_address v \<noteq> None" using assms(1) unfolding serving_def by blast+
  ultimately have "serving config ids v'" using ok(1) unfolding serving_def v'(3,4) by blast
  with v'(1) sum(2) t(2,3) ok(2) a(7) show ?thesis by auto
qed

lemma send_connections_return:
  "serving config ids v \<Longrightarrow> distinct order \<Longrightarrow> set order \<subseteq> dom (sv_connections v) \<Longrightarrow>
   set order \<inter> set (sv_dropped v) = {} \<Longrightarrow>
   unat used + length order * packet_max_size config < 2 ^ 32 \<Longrightarrow>
   \<exists>used' s' v' clk'.
    send_connections binary_limiter noop_modifier (udp_ops os) order (used, s, v, clk) = Some (used', s', v', clk') \<and>
    unat used' \<le> unat used + length order * packet_max_size config \<and> same_inbox s s' \<and> serving config ids v' \<and>
    sv_ticker v' = sv_ticker v \<and> sv_stats_collector v' = sv_stats_collector v \<and> sv_socket v' = sv_socket v"
proof (induction order arbitrary: used s v clk)
  case (Cons i order)
  let ?max = "packet_max_size config"
  have i: "i \<in> dom (sv_connections v)" "i \<notin> set (sv_dropped v)" "unat used + ?max < 2 ^ 32"
    using Cons.prems(3-5) by auto
  obtain used1 s1 v1 clk1 where 1:
    "send_connection binary_limiter noop_modifier (udp_ops os) i (used, s, v, clk) = Some (used1, s1, v1, clk1)"
    "unat used1 \<le> unat used + ?max" "same_inbox s s1" "serving config ids v1" "sent_to i v v1"
    using send_connection_returns [OF Cons.prems(1) i] by blast
  obtain c events where v1: "v1 = v\<lparr>sv_connections := (sv_connections v)(i \<mapsto> c), sv_events := events,
      sv_dropped := sv_dropped v @ (if connection_open c then [] else [i])\<rparr>"
    using 1(5) by (auto simp: sent_to_def)
  have "distinct order" "set order \<subseteq> dom (sv_connections v1)" "set order \<inter> set (sv_dropped v1) = {}"
    "unat used1 + length order * ?max < 2 ^ 32"
    using Cons.prems(2-5) 1(2) by (auto simp: v1)
  from Cons.IH [OF 1(4) this, of s1 clk1] obtain used2 s2 v2 clk2 where
    "send_connections binary_limiter noop_modifier (udp_ops os) order (used1, s1, v1, clk1) = Some (used2, s2, v2, clk2)"
    "unat used2 \<le> unat used1 + length order * ?max" "same_inbox s1 s2" "serving config ids v2"
    "sv_ticker v2 = sv_ticker v1 \<and> sv_stats_collector v2 = sv_stats_collector v1 \<and> sv_socket v2 = sv_socket v1"
    by blast
  with 1 same_inbox_trans [OF 1(3)] show ?case by (simp add: v1)
qed simp

text \<open>Removing the dropped connections, when no event is left.\<close>

lemma serving_restrict:
  assumes "serving config ids v" "sv_events v = []"
  shows "serving config ids (v\<lparr>sv_connections := sv_connections v |` (- A), sv_addresses := sv_addresses v |` (- A),
    sv_dropped := []\<rparr>)"
  using assms by (auto simp: serving_def server_ok_def restrict_map_def dom_def)

lemma server_received_send:
  assumes "server_received config b ids v" "sv_events v = []" "rates_ok (send_rate config) b"
    and "finite ids" "card ids * packet_max_size config \<le> b"
    and "distinct order" "set order = dom (sv_connections v) - set (sv_dropped v)"
  obtains sleep v' clk' where
    "server_send binary_limiter noop_modifier (udp_ops os) order auto clk v = Some (Inr (), sleep, v', clk')"
    "server_rested config b ids v'"
proof -
  let ?S = "udp_ops os"
  obtain s where v: "serving config ids v" "pacing_ok (sv_ticker v)" "stats_half config b (sv_stats_collector v)"
    "sv_socket v = Some s" "socket_ready config b ids s"
    using assms(1) by (auto simp: server_received_def)
  let ?v = "v\<lparr>sv_connections := sv_connections v |` (- set (sv_dropped v)),
      sv_addresses := sv_addresses v |` (- set (sv_dropped v)), sv_dropped := []\<rparr>"
  have drop: "distinct (sv_dropped v)" "set (sv_dropped v) \<subseteq> dom (sv_connections v)"
    using v(1) by (simp_all add: serving_def server_ok_def)
  obtain clk1 where 1: "remove_dropped binary_limiter (sv_dropped v) clk v = Some (?v, clk1)"
    using remove_dropped_spec [OF drop] by blast
  have serving: "serving config ids ?v" by (rule serving_restrict [OF v(1) assms(2)])
  have "set order \<subseteq> ids" using assms(7) v(1) unfolding serving_def by blast
  then have "length order \<le> card ids"
    using card_mono [OF assms(4)] distinct_card [OF assms(6)] by metis
  then have "length order * packet_max_size config \<le> card ids * packet_max_size config" by (rule mult_le_mono1)
  then have size: "length order * packet_max_size config \<le> b" using assms(5) by (rule order_trans)
  have "b < 2 ^ 32" using assms(3) by (simp add: rates_ok_def)
  then have pre: "set order \<subseteq> dom (sv_connections ?v)" "set order \<inter> set (sv_dropped ?v) = {}"
    "unat (0 :: u32) + length order * packet_max_size config < 2 ^ 32"
    using assms(7) size by auto
  obtain used s1 v1 clk2 where 2:
    "send_connections binary_limiter noop_modifier ?S order (0, s, ?v, clk1) = Some (used, s1, v1, clk2)"
    "unat used \<le> b" "same_inbox s s1" "serving config ids v1" "sv_ticker v1 = sv_ticker v"
    "sv_stats_collector v1 = sv_stats_collector v" "sv_socket v1 = sv_socket v"
    using send_connections_return [OF serving assms(6) pre, of os s clk1] size by auto
  obtain collector where st: "set_bytes_sent used (sv_stats_collector v) = Some collector"
    "stats_ready config b (collector_tick collector)"
    by (rule stats_send [OF assms(3) v(3) 2(2)])
  obtain sleep t clk3 where e:
    "(if auto then end_tick clk2 (sv_ticker v) else Some (0, sv_ticker v, clk2)) = Some (sleep, t, clk3)" "pacing_ok t"
    by (rule end_tick_returns [OF v(2), of auto clk2])
  let ?v' = "v1\<lparr>sv_socket := Some s1, sv_stats_collector := collector_tick collector,
      sv_stats := average (collector_tick collector), sv_should_receive := True, sv_ticker := t\<rparr>"
  have "server_send binary_limiter noop_modifier ?S order auto clk v = Some (Inr (), sleep, ?v', clk3)"
    using e(1) by (cases auto) (simp_all add: server_send_def v(4) 1 2(1,5,6) st(1) Let_def)
  moreover have "serving config ids ?v'"
    by (rule serving_fields [OF 2(4)]) (use 2(7) v(4) in simp_all)
  then have "server_rested config b ids ?v'"
    using e(2) st(2) socket_ready_inbox [OF v(5) 2(3)] by (simp add: server_rested_def)
  ultimately show thesis by (rule that)
qed

end
