(* ===== verification/Example_Server.thy ===== *)
theory Example_Server
  imports Server_Ticks
begin

text \<open>
  The example program \<open>examples/server.rs\<close>: listen on all interfaces and, round by round, handle what arrives,
  queue a greeting on every connection and send. Theorem: it does not panic, provided no datagram is too
  short; \<open>short_packet_panics\<close> shows that this is needed.
\<close>

datatype server_line =
    Listening_Line
  | Client_Connected_Line connection_id socket_addr u32
  | Client_Message_Line connection_id socket_addr u32 bytes
  | Client_Disconnected_Line connection_id socket_addr u32
  | Shutting_Down_Line

text \<open>\<open>server.connection(&id).unwrap()\<close> and what is printed of the connection.\<close>

definition server_peer :: "connection_id \<Rightarrow> udp_server \<Rightarrow> ((socket_addr \<times> u32) \<times> udp_server) option" where
  "server_peer i v =
     (case server_connection i (\<lambda>x. ((conn_peer_addr x, rtt x), x)) v of
        (Inr peer, v) \<Rightarrow> Some (peer, v)
      | (Inl _, _) \<Rightarrow> None)"

text \<open>The \<open>match\<close> on an event; the first result is whether the main loop ends.\<close>

fun server_handle :: "server_event \<Rightarrow> udp_server \<Rightarrow> (bool \<times> server_line list \<times> udp_server) option" where
  "server_handle (Server_Connection i) v =
     do { ((addr, ms), v) \<leftarrow> server_peer i v; Some (False, [Client_Connected_Line i addr ms], v) }"
| "server_handle (Server_Message i message) v =
     do { ((addr, ms), v) \<leftarrow> server_peer i v; Some (False, [Client_Message_Line i addr ms message], v) }"
| "server_handle (Server_ConnectionClosed i _) v =
     do { ((addr, ms), v) \<leftarrow> server_peer i v; Some (True, [Client_Disconnected_Line i addr ms], v) }"
| "server_handle (Server_ConnectionLost i _) v =
     do { ((addr, ms), v) \<leftarrow> server_peer i v; Some (True, [Client_Disconnected_Line i addr ms], v) }"
| "server_handle _ v = Some (False, [], v)"

text \<open>\<open>while let Ok(event) = server.accept_receive() { ... }\<close>, with what was printed so far.\<close>

partial_function (option) server_events ::
  "udp_socket socket \<Rightarrow> u32 \<Rightarrow> server_line list \<Rightarrow> clock \<Rightarrow> udp_server \<Rightarrow>
     (bool \<times> server_line list \<times> udp_server \<times> clock) option" where
  "server_events S random out clk v =
     (case server_accept_receive binary_limiter noop_modifier S random clk v of
        None \<Rightarrow> None
      | Some (Inl _, v, clk) \<Rightarrow> Some (False, out, v, clk)
      | Some (Inr e, v, clk) \<Rightarrow>
          (case server_handle e v of
             None \<Rightarrow> None
           | Some (stop, printed, v) \<Rightarrow>
               if stop then Some (True, out @ printed, v, clk) else server_events S random (out @ printed) clk v))"

definition hello_server :: bytes where
  "hello_server = map of_char ''Hello from Server''"

text \<open>\<open>for (_, conn) in server.connections() { conn.send(...) }\<close>: the order does not matter.\<close>

definition greet_all ::
  "(connection_id \<rightharpoonup> (binary_rate_limiter, noop_packet_modifier) connection) \<Rightarrow>
     unit \<times> (connection_id \<rightharpoonup> (binary_rate_limiter, noop_packet_modifier) connection)" where
  "greet_all connections = ((), map_option (connection_send Instant hello_server) \<circ> connections)"

text \<open>One pass of the main loop. \<open>order\<close> lists a set of ids as \<open>send\<close> iterates over it in this pass.\<close>

definition server_pass ::
  "udp_socket socket \<Rightarrow> u32 \<Rightarrow> (connection_id set \<Rightarrow> connection_id list) \<Rightarrow> server_line list \<Rightarrow> clock \<Rightarrow> udp_server \<Rightarrow>
     (bool \<times> server_line list \<times> udp_server \<times> clock) option" where
  "server_pass S random order out clk v =
     do {
       (stop, out, v, clk) \<leftarrow> server_events S random out clk v;
       if stop then Some (True, out, v, clk)
       else
         do {
           let v = snd (server_connections greet_all v);
           (_, _, v, clk) \<leftarrow>
             server_send binary_limiter noop_modifier S (order (dom (sv_connections v) - set (sv_dropped v))) True clk v;
           Some (False, out, v, clk)
         }
     }"

text \<open>At most \<open>n\<close> passes of the main loop; the first result is whether it has ended.\<close>

fun server_loop ::
  "udp_socket socket \<Rightarrow> u32 \<Rightarrow> (nat \<Rightarrow> connection_id set \<Rightarrow> connection_id list) \<Rightarrow> nat \<Rightarrow> server_line list \<Rightarrow> clock \<Rightarrow>
     udp_server \<Rightarrow> (bool \<times> server_line list \<times> udp_server \<times> clock) option" where
  "server_loop S random orders 0 out clk v = Some (False, out, v, clk)"
| "server_loop S random orders (Suc n) out clk v =
     do {
       (stop, out, v, clk) \<leftarrow> server_pass S random (orders n) out clk v;
       if stop then Some (True, out, v, clk) else server_loop S random orders n out clk v
     }"

text \<open>The address \<open>0.0.0.0:1234\<close>, and the program for a configuration.\<close>

definition listen_addr :: socket_addr where
  "listen_addr = V4 (0, 0, 0, 0) 1234"

definition server_program ::
  "config \<Rightarrow> udp_socket socket \<Rightarrow> u32 \<Rightarrow> (nat \<Rightarrow> connection_id set \<Rightarrow> connection_id list) \<Rightarrow> nat \<Rightarrow> clock \<Rightarrow>
     (bool \<times> server_line list \<times> udp_server) option" where
  "server_program config S random orders n clk =
     do {
       (v, clk) \<leftarrow> server_new config clk;
       (result, v) \<leftarrow> server_listen S (Inr [listen_addr]) v;
       if isl result then None
       else
         do {
           (stop, out, v, clk) \<leftarrow> server_loop S random orders n [Listening_Line] clk v;
           if stop then
             (let (_, v, _) = server_shutdown clk v in Some (True, out @ [Shutting_Down_Line], v))
           else Some (False, out, v)
         }
     }"

definition server_main ::
  "udp_socket socket \<Rightarrow> u32 \<Rightarrow> (nat \<Rightarrow> connection_id set \<Rightarrow> connection_id list) \<Rightarrow> nat \<Rightarrow> clock \<Rightarrow>
     (bool \<times> server_line list \<times> udp_server) option" where
  "server_main = server_program default_config"

subsection \<open>It does not panic\<close>

lemma server_peer_connected:
  "sv_socket v \<noteq> None \<Longrightarrow> sv_connections v i = Some c \<Longrightarrow> server_peer i v = Some ((conn_peer_addr c, rtt c), v)"
  by (auto simp: server_peer_def server_connection_def map_upd_same intro!: server.equality)

lemma server_handle_connected:
  assumes "sv_socket v \<noteq> None" "event_id e \<in> dom (sv_connections v)"
  shows "\<exists>stop printed. server_handle e v = Some (stop, printed, v)"
proof -
  obtain c where "sv_connections v (event_id e) = Some c" using assms(2) by blast
  from server_peer_connected [OF assms(1) this] show ?thesis by (cases e) (simp_all add: ex_bool_eq)
qed

lemma server_received_pop:
  assumes "server_received config b ids v" "sv_events v = e # es"
  shows "server_received config b ids (v\<lparr>sv_events := es\<rparr>)"
    "\<exists>stop printed. server_handle e (v\<lparr>sv_events := es\<rparr>) = Some (stop, printed, v\<lparr>sv_events := es\<rparr>)"
proof -
  show "server_received config b ids (v\<lparr>sv_events := es\<rparr>)"
    by (rule server_received_events [OF assms(1)]) (auto simp: assms(2))
  have "event_id e \<in> dom (sv_connections v)" "sv_socket v \<noteq> None"
    using assms by (auto simp: server_received_def serving_def)
  then show "\<exists>stop printed. server_handle e (v\<lparr>sv_events := es\<rparr>) = Some (stop, printed, v\<lparr>sv_events := es\<rparr>)"
    by (intro server_handle_connected) simp_all
qed

text \<open>The rest of the event loop, from any state in which \<open>accept_receive\<close> answers from the queue.\<close>

lemma server_events_return:
  "server_received config b ids v \<Longrightarrow>
   \<exists>stop out' v'. server_events (udp_ops os) random out clk v = Some (stop, out', v', clk) \<and>
     server_received config b ids v' \<and> (\<not> stop \<longrightarrow> sv_events v' = [])"
proof (induction "sv_events v" arbitrary: v out)
  case Nil
  then show ?case
    by (subst server_events.simps) (simp add: server_received_receive ex_bool_eq flip: Nil(1))
next
  case (Cons e es)
  note e = Cons(2) [symmetric]
  let ?v = "v\<lparr>sv_events := es\<rparr>"
  have r: "server_accept_receive binary_limiter noop_modifier (udp_ops os) random clk v = Some (Inr e, ?v, clk)"
    using server_received_receive [OF Cons.prems, of os random clk] by (simp add: e)
  note p = server_received_pop [OF Cons.prems e]
  obtain stop printed where h: "server_handle e ?v = Some (stop, printed, ?v)" using p(2) by blast
  from Cons.hyps(1) [of ?v "out @ printed"] p(1) show ?case
    by (subst server_events.simps) (auto simp: r h)
qed

lemma server_rested_events:
  assumes "server_rested config b ids v" "rates_ok (send_rate config) b"
  shows "\<exists>stop out' v' clk'. server_events (udp_ops os) random out clk v = Some (stop, out', v', clk') \<and>
    server_received config b ids v' \<and> (\<not> stop \<longrightarrow> sv_events v' = [])"
proof (rule server_rested_receive [OF assms, of os random clk])
  fix v1 clk1
  assume r: "server_accept_receive binary_limiter noop_modifier (udp_ops os) random clk v =
      Some (case sv_events v1 of e # es \<Rightarrow> (Inr e, v1\<lparr>sv_events := es\<rparr>, clk1) | [] \<Rightarrow> (Inl Empty, v1, clk1))"
    and v1: "server_received config b ids v1"
  then have "server_events (udp_ops os) random out clk v = server_events (udp_ops os) random out clk1 v1"
    by (subst (1 2) server_events.simps) (simp add: server_received_receive)
  with server_events_return [OF v1, of os random out clk1] show ?thesis by auto
qed

lemma greeted:
  assumes "server_received config b ids v"
  shows "server_received config b ids (snd (server_connections greet_all v))"
proof -
  let ?v = "snd (server_connections greet_all v)"
  have v: "serving config ids v" using assms by (simp add: server_received_def)
  have f: "sv_config ?v = sv_config v" "sv_addresses ?v = sv_addresses v" "sv_dropped ?v = sv_dropped v"
    "sv_socket ?v = sv_socket v" "sv_local_address ?v = sv_local_address v" "sv_events ?v = sv_events v"
    "sv_ticker ?v = sv_ticker v" "sv_stats_collector ?v = sv_stats_collector v" "sv_should_receive ?v = sv_should_receive v"
    "sv_connections ?v = map_option (connection_send Instant hello_server) \<circ> sv_connections v"
    by (simp_all add: server_connections_def greet_all_def)
  have d: "dom (sv_connections ?v) = dom (sv_connections v)" unfolding f(10) by (auto simp: dom_def)
  have "length hello_server < 65536" by (simp add: hello_server_def)
  then have one: "\<exists>addr. sv_addresses v i = Some addr \<and> served binary_invar config i addr c \<and> settled c \<and> i \<in> ids"
    if "sv_connections ?v i = Some c" for i c
  proof -
    obtain c0 where c0: "sv_connections v i = Some c0" "c = connection_send Instant hello_server c0"
      using \<open>sv_connections ?v i = Some c\<close> unfolding f(10) by auto
    obtain addr where a: "sv_addresses v i = Some addr" "served binary_invar config i addr c0" "settled c0" "i \<in> ids"
      "conn_invar binary_invar c0"
      by (rule servingE [OF v c0(1)])
    have "served binary_invar config i addr c"
      by (rule served_same_peer [OF a(2)])
        (use a(2,5) c0(2) same_peer_simple_ops(1) [of c0 Instant hello_server] in
          \<open>simp_all add: conn_invar_simple_ops, simp add: served_def connection_send_def\<close>)
    with a settled_simple_ops(3) [OF a(3) \<open>length hello_server < 65536\<close>] c0(2) show ?thesis by blast
  qed
  have ok: "server_ok binary_invar binary_valid v" and c: "sv_config v = config" using v by (simp_all add: serving_def)
  have "server_ok binary_invar binary_valid ?v"
    using ok one c unfolding server_ok_def d f(1-5) by blast
  then have "serving config ids ?v"
    using v one c unfolding serving_def d f(1,5,6) by blast
  then show ?thesis using assms unfolding server_received_def f(4,7-9) by blast
qed

text \<open>What is assumed of the iteration order: it lists the set, each id once.\<close>

definition iteration_orders :: "(nat \<Rightarrow> connection_id set \<Rightarrow> connection_id list) \<Rightarrow> bool" where
  "iteration_orders orders \<longleftrightarrow> (\<forall>k A. finite A \<longrightarrow> distinct (orders k A) \<and> set (orders k A) = A)"

lemma server_pass_returns:
  assumes "server_rested config b ids v" "rates_ok (send_rate config) b" "finite ids" "card ids * packet_max_size config \<le> b"
    and "\<And>A. finite A \<Longrightarrow> distinct (order A) \<and> set (order A) = A"
  shows "\<exists>stop out' v' clk'. server_pass (udp_ops os) random order out clk v = Some (stop, out', v', clk') \<and>
    (if stop then sv_socket v' \<noteq> None else server_rested config b ids v')"
proof -
  obtain stop out1 v1 clk1 where 1:
    "server_events (udp_ops os) random out clk v = Some (stop, out1, v1, clk1)"
    "server_received config b ids v1" "\<not> stop \<longrightarrow> sv_events v1 = []"
    using server_rested_events [OF assms(1,2), of os random out clk] by blast
  show ?thesis
  proof (cases stop)
    case True
    with 1 show ?thesis by (auto simp: server_pass_def server_received_def ex_bool_eq)
  next
    case False
    let ?v = "snd (server_connections greet_all v1)"
    have v: "server_received config b ids ?v" by (rule greeted [OF 1(2)])
    have none: "sv_events ?v = []" using 1(3) False by (simp add: server_connections_def greet_all_def)
    have "dom (sv_connections ?v) \<subseteq> ids" using v unfolding server_received_def serving_def by blast
    then have "finite (dom (sv_connections ?v) - set (sv_dropped ?v))" using assms(3) by (meson finite_Diff finite_subset)
    note order = assms(5) [OF this]
    obtain sleep v2 clk2 where
      "server_send binary_limiter noop_modifier (udp_ops os)
         (order (dom (sv_connections ?v) - set (sv_dropped ?v))) True clk1 ?v = Some (Inr (), sleep, v2, clk2)"
      "server_rested config b ids v2"
      by (rule server_received_send [OF v none assms(2-4) conjunct1 [OF order] conjunct2 [OF order]])
    with 1(1) False show ?thesis by (simp add: server_pass_def Let_def ex_bool_eq)
  qed
qed

lemma server_loop_returns:
  assumes "server_rested config b ids v" "rates_ok (send_rate config) b" "finite ids" "card ids * packet_max_size config \<le> b"
    and "iteration_orders orders"
  shows "\<exists>stop out' v' clk'. server_loop (udp_ops os) random orders n out clk v = Some (stop, out', v', clk') \<and>
    (stop \<longrightarrow> sv_socket v' \<noteq> None)"
  using assms(1)
proof (induction n arbitrary: out clk v)
  case (Suc n)
  have "\<And>A. finite A \<Longrightarrow> distinct (orders n A) \<and> set (orders n A) = A"
    using assms(5) by (simp add: iteration_orders_def)
  from server_pass_returns [OF Suc.prems assms(2-4) this, of os random out clk] obtain stop out1 v1 clk1 where
    1: "server_pass (udp_ops os) random (orders n) out clk v = Some (stop, out1, v1, clk1)"
    "if stop then sv_socket v1 \<noteq> None else server_rested config b ids v1"
    by blast
  show ?case
  proof (cases stop)
    case False
    with 1(2) Suc.IH [of v1 out1 clk1] show ?thesis by (simp add: 1(1) False)
  qed (use 1 in \<open>simp add: ex_bool_eq\<close>)
qed (simp add: ex_bool_eq)

lemma example_listens:
  assumes "valid_settings config" "binary_valid config"
    and "tick_overflow_recovery config \<longrightarrow> f32_nonneg (tick_overflow_recovery_rate config)"
    and socket: "udp_new os listen_addr (packet_max_size config) = Inr s"
    and "bursts_within b 0 (waiting s)" "fair_arrivals config ids (waiting s)"
  obtains v0 clk0 v where "server_new config clk = Some (v0, clk0)"
    "server_listen (udp_ops os) (Inr [listen_addr]) v0 = Some (Inr (), v)" "server_rested config b ids v"
proof -
  have "0 < send_rate config" "14 \<le> packet_max_size config"
    using assms(1) by (simp_all add: valid_settings_def PACKET_HEADER_SIZE_def)
  then obtain v0 :: udp_server and clk0 where n: "server_new config clk = Some (v0, clk0)" "sv_config v0 = config"
    "sv_socket v0 = None" "sv_connections v0 = Map.empty" "sv_addresses v0 = Map.empty" "sv_dropped v0 = []"
    "sv_events v0 = []" "sv_stats_collector v0 = collector_new config" "pacing_ok (sv_ticker v0)"
    using assms(3) by (auto simp: server_new_def ticker_new_def checked_div_def pacing_ok_def)
  let ?v = "v0\<lparr>sv_socket := Some s, sv_local_address := Some listen_addr, sv_should_receive := True\<rparr>"
  have "server_listen (udp_ops os) (Inr [listen_addr]) v0 = Some (Inr (), ?v)"
    by (simp add: server_listen_def n udp_ops_def socket)
  moreover have "serving config ids ?v"
    using assms(1,2) by (simp add: serving_def server_ok_def n)
  then have "server_rested config b ids ?v"
    using assms(5,6) \<open>14 \<le> packet_max_size config\<close> n(8,9) udp_new_buffer [OF socket]
    by (simp add: server_rested_def stats_ready_new socket_ready_def)
  ultimately show thesis by (rule that [OF n(1)])
qed

text \<open>C10: The example server never panics once it has its socket and when no datagram is too short. Whatever datagrams arrive and whatever
  sends fail, at any clock and in any iteration order of the hash map, any number of passes of its main
  loop returns, provided that the operating system binds the socket
  (\<open>server_program_needs_socket\<close>), that a datagram with the protocol header has at least the 14 bytes of a packet
  header (\<open>short_packet_panics\<close> shows why), that every burst of arrivals comes to an end, and that the connection ids that ever arrive, the bursts of
  arrivals and the packet size cannot bring a window of the statistics past 4 GiB. If the main loop has ended, the
  server has freed its socket and all connections.\<close>

theorem server_program_never_panics:
  assumes "valid_settings config" "binary_valid config"
    and "tick_overflow_recovery config \<longrightarrow> f32_nonneg (tick_overflow_recovery_rate config)"
    and "rates_ok (send_rate config) b" "finite ids" "card ids * packet_max_size config \<le> b"
    and "udp_new os listen_addr (packet_max_size config) = Inr s"
    and "bursts_within b 0 (waiting s)" "fair_arrivals config ids (waiting s)" "iteration_orders orders"
  shows "\<exists>ended out v. server_program config (udp_ops os) random orders n clk = Some (ended, out, v) \<and>
    (ended \<longrightarrow> sv_socket v = None \<and> sv_connections v = Map.empty)"
proof (rule example_listens [OF assms(1-3,7-9), of clk])
  fix v0 clk0 v
  assume v: "server_new config clk = Some (v0, clk0)"
    "server_listen (udp_ops os) (Inr [listen_addr]) v0 = Some (Inr (), v)" "server_rested config b ids v"
  obtain stop out v' clk' where
    l: "server_loop (udp_ops os) random orders n [Listening_Line] clk0 v = Some (stop, out, v', clk')"
    "stop \<longrightarrow> sv_socket v' \<noteq> None"
    using server_loop_returns [OF v(3) assms(4-6,10)] by blast
  show ?thesis
  proof (cases stop)
    case True
    then obtain s where "sv_socket v' = Some s" using l(2) by blast
    then have "server_program config (udp_ops os) random orders n clk =
        Some (True, out @ [Shutting_Down_Line], fst (snd (server_shutdown clk' v')))"
      and "sv_socket (fst (snd (server_shutdown clk' v'))) = None" "sv_connections (fst (snd (server_shutdown clk' v'))) = Map.empty"
      by (simp_all add: server_program_def v(1,2) l(1) True server_shutdown_def split_beta)
    then show ?thesis by blast
  next
    case False
    then have "server_program config (udp_ops os) random orders n clk = Some (False, out, v')"
      by (simp add: server_program_def v(1,2) l(1))
    then show ?thesis by blast
  qed
qed

text \<open>Without a socket the \<open>expect\<close> on the result of \<open>listen\<close> panics.\<close>

lemma server_program_needs_socket:
  assumes "udp_new os listen_addr (packet_max_size config) = Inl e"
  shows "server_program config (udp_ops os) random orders n clk = None"
proof -
  have "sv_socket v = None \<and> sv_config v = config" if "server_new config clk = Some (v, clk0)" for v :: udp_server and clk0
    using that by (auto simp: server_new_def bind_Some_iff split_beta)
  then show ?thesis
    using assms by (cases "server_new config clk :: (udp_server \<times> clock) option")
      (auto simp: server_program_def server_listen_def udp_ops_def)
qed

lemma iteration_orders_exist: "\<exists>orders. iteration_orders orders"
proof -
  have "\<forall>A :: connection_id set. \<exists>xs. finite A \<longrightarrow> distinct xs \<and> set xs = A" using finite_distinct_list by blast
  then obtain f where "\<forall>A :: connection_id set. finite A \<longrightarrow> distinct (f A) \<and> set (f A) = A" by metis
  then have "iteration_orders (\<lambda>_. f)" by (simp add: iteration_orders_def)
  then show ?thesis by blast
qed

text \<open>Two clients, one of which sends an empty packet with the protocol header; the server runs a thousand passes.\<close>

theorem server_program_never_panics_witness:
  "\<exists>orders ended out v.
    server_main (udp_ops (fresh_os
        (Inr (any_addr, [1, 2, 3, 4, 0, 0, 0, 9, 0, 0, 0, 0, 0, 0]) ## Inr (listen_addr, [5]) ## silence)
        [None, Some (OtherError 5)]))
      7 orders 1000 (\<lambda>k. k) = Some (ended, out, v)"
proof -
  obtain orders where o: "iteration_orders orders" using iteration_orders_exist by blast
  let ?arrivals = "Inr (any_addr, [1, 2, 3, 4, 0, 0, 0, 9, 0, 0, 0, 0, 0, 0]) ## Inr (listen_addr, [5]) ## silence :: arrivals"
  let ?os = "fresh_os ?arrivals [None, Some (OtherError 5)]"
  obtain s where s: "udp_new ?os listen_addr (packet_max_size default_config) = Inr s" "waiting s = ?arrivals"
    by (rule fresh_socket_opens)
  have a: "bursts_within 2000 0 (waiting s)" "fair_arrivals default_config {ConnectionID 9} (waiting s)"
    by (auto simp: s(2) fair_arrivals_def fair_packet_def id_from_packet_def u32_of_bytes_def)
  have "\<exists>ended out v. server_program default_config (udp_ops ?os) 7 orders 1000 (\<lambda>k. k) =
      Some (ended, out, v) \<and> (ended \<longrightarrow> sv_socket v = None \<and> sv_connections v = Map.empty)"
    by (rule server_program_never_panics [OF _ _ _ _ _ _ s(1) a o]) (simp_all add: rates_ok_def)
  then show ?thesis unfolding server_main_def by blast
qed

end
