(* ===== verification/Queue_Limits.thy ===== *)
theory Queue_Limits
  imports Queue_Properties
begin

text \<open>
  Payloads that are too long for the queue of \<open>src/shared/message_queue.rs\<close>. One that does not fit into a
  packet is never sent and holds up everything of its kind behind it; one of 64 KiB or more is sent whole
  under a size that has wrapped around.
\<close>

subsection \<open>Payloads longer than a packet\<close>

definition outgoing :: "message_kind \<Rightarrow> message_queue \<Rightarrow> message list" where
  "outgoing kind q = (case kind of Instant \<Rightarrow> i_queue q | Reliable \<Rightarrow> r_queue q | Ordered \<Rightarrow> o_queue q)"

text \<open>A sender: payloads submitted and packets filled, with the messages of the packets.\<close>

datatype sender_step = Submit message_kind bytes | Fill nat

fun run_sender :: "sender_step list \<Rightarrow> message_queue \<Rightarrow> (message list \<times> message_queue) option" where
  "run_sender [] q = Some ([], q)"
| "run_sender (Submit kind payload # steps) q = run_sender steps (mq_send kind payload q)"
| "run_sender (Fill available # steps) q =
     do {
       (packet, q) \<leftarrow> mq_send_packet [] available q;
       (ms, q) \<leftarrow> run_sender steps q;
       Some (messages_from_packet packet @ ms, q)
     }"

text \<open>Payloads below 64 KiB, and packets too small for \<open>n\<close> bytes of payload.\<close>

fun small_step :: "nat \<Rightarrow> sender_step \<Rightarrow> bool" where
  "small_step n (Submit kind payload) \<longleftrightarrow> length payload < 65536"
| "small_step n (Fill available) \<longleftrightarrow> available < n + 4 \<and> available < 2 ^ 22"

lemma outgoing_send:
  "outgoing kind (mq_send kind' payload q) =
     outgoing kind q @ (if kind = kind' then [\<lparr>m_kind = kind, m_order = local_order_id q,
       m_size = word_of_nat (length payload), m_data = payload\<rparr>] else [])"
  by (cases kind; cases kind') (simp_all add: outgoing_def mq_send_def Let_def)

text \<open>A packet that is too small takes nothing from a queue whose front does not fit.\<close>

lemma blocked_front:
  assumes "queue_reachable q" "outgoing kind q = front # rest" "available < length (m_data front) + 4"
    "available < 2 ^ 22"
  obtains packet q' where "mq_send_packet [] available q = Some (packet, q')" "queue_reachable q'"
    "outgoing kind q' = front # rest" "\<forall>m \<in> set (messages_from_packet packet). m_kind m \<noteq> kind"
proof (rule reachable_packet [OF assms(1,4), of "[]"])
  fix ms q'
  assume 1: "mq_send_packet [] available q = Some ([] @ concat (map serialize ms), q')"
    "messages_from_packet (concat (map serialize ms)) = ms"
    "i_queue q = of_kind Instant ms @ i_queue q'" "r_queue q = of_kind Reliable ms @ r_queue q'"
    "o_queue q = of_kind Ordered ms @ o_queue q'" "length (concat (map serialize ms)) \<le> available"
  have split: "outgoing kind q = of_kind kind ms @ outgoing kind q'"
    using 1(3-5) by (cases kind) (simp_all add: outgoing_def)
  have "of_kind kind ms = []"
  proof (rule ccontr)
    assume "of_kind kind ms \<noteq> []"
    with split assms(2) have "front \<in> set (of_kind kind ms)" by (cases "of_kind kind ms") auto
    then have "front \<in> set ms" by simp
    then have "length (serialize front) \<le> length (concat (map serialize ms))"
      by (simp add: length_concat member_le_sum_list)
    with 1(6) assms(3) show False by simp
  qed
  then have "outgoing kind q' = front # rest" "\<forall>m \<in> set ms. m_kind m \<noteq> kind"
    using split assms(2) by (simp_all add: filter_empty_conv)
  moreover have "queue_reachable q'" using q_send_packet [OF assms(1,4)] 1(1) by simp
  moreover have "mq_send_packet [] available q = Some (concat (map serialize ms), q')" using 1(1) by simp
  ultimately show thesis using that [of "concat (map serialize ms)" q'] unfolding 1(2) by blast
qed

text \<open>C31: \<open>send\<close> says that a message is eventually serialised. A message too long for the packets never is, and
  nothing of its kind behind it either: whatever is submitted and however many packets are filled, no
  packet carries a message of that kind, and the queue only grows.\<close>

theorem oversized_message_blocks:
  assumes "queue_reachable q" "outgoing kind q = front # rest"
    and "\<forall>step \<in> set steps. small_step (length (m_data front)) step"
  shows "\<exists>ms q' more. run_sender steps q = Some (ms, q') \<and> (\<forall>m \<in> set ms. m_kind m \<noteq> kind) \<and>
    outgoing kind q' = front # rest @ more \<and>
    length more = length (filter (\<lambda>step. \<exists>payload. step = Submit kind payload) steps)"
  using assms
proof (induction steps arbitrary: q rest)
  case (Cons step steps)
  show ?case
  proof (cases step)
    case (Submit kind' payload)
    have q: "queue_reachable (mq_send kind' payload q)"
      by (rule q_send) (use Cons.prems Submit in auto)
    obtain new where "outgoing kind (mq_send kind' payload q) = front # rest @ new"
      "length new = (if kind = kind' then 1 else 0)"
      by (simp add: outgoing_send Cons.prems(2))
    with Cons.IH [OF q this(1)] Cons.prems(3) Submit show ?thesis by fastforce
  next
    case (Fill available)
    with Cons.prems(3) have "available < length (m_data front) + 4" "available < 2 ^ 22" by simp_all
    from blocked_front [OF Cons.prems(1,2) this] obtain packet q1 where
      1: "mq_send_packet [] available q = Some (packet, q1)" "queue_reachable q1" "outgoing kind q1 = front # rest"
      "\<forall>m \<in> set (messages_from_packet packet). m_kind m \<noteq> kind" .
    from Cons.IH [OF 1(2,3)] Cons.prems(3) obtain ms q' more where
      "run_sender steps q1 = Some (ms, q')" "\<forall>m \<in> set ms. m_kind m \<noteq> kind" "outgoing kind q' = front # rest @ more"
      "length more = length (filter (\<lambda>step. \<exists>payload. step = Submit kind payload) steps)"
      by auto
    with 1(1,4) Fill show ?thesis by (auto intro: exI [of _ more])
  qed
qed simp

theorem oversized_message_blocks_witness:
  "\<exists>ms q'. run_sender (replicate 1000 (Fill 1386)) (mq_send Reliable [7] (mq_send Reliable (replicate 1400 0) (mq_new default_config))) =
     Some (ms, q') \<and> (\<forall>m \<in> set ms. m_kind m \<noteq> Reliable)"
proof -
  let ?q = "mq_send Reliable [7] (mq_send Reliable (replicate 1400 0) (mq_new default_config))"
  have "queue_reachable ?q" by (intro q_send q_new) simp_all
  moreover obtain rest where "outgoing Reliable ?q = \<lparr>m_kind = Reliable, m_order = 0, m_size = word_of_nat 1400,
      m_data = replicate 1400 0\<rparr> # rest"
    by (simp add: outgoing_def mq_send_def mq_new_def Let_def)
  ultimately show ?thesis
    using oversized_message_blocks [of ?q Reliable _ rest "replicate 1000 (Fill 1386)"] by fastforce
qed

subsection \<open>Payloads of 64 KiB and more\<close>

lemma serialize_prefix:
  "serialize \<lparr>m_kind = kind, m_order = n, m_size = k16, m_data = payload\<rparr> =
     serialize \<lparr>m_kind = kind, m_order = n, m_size = k16, m_data = take k payload\<rparr> @ drop k payload"
  by (simp add: serialize_def message_header_def)

text \<open>C32: A payload of 64 KiB or more breaks the packet. \<open>send\<close> keeps the length in 16 bits, so that the packet
  has room for the remainder only, but the whole payload is written: the packet exceeds the space it was
  given, and the receiver takes the remainder for the message and the rest of the payload for more
  messages.\<close>

theorem long_payload_breaks_packet:
  assumes "queue_reachable q" "i_queue q = []" "r_queue q = []" "o_queue q = []"
    and "65536 \<le> length payload" "length payload mod 65536 + 4 \<le> available" "available < 65536"
  shows "\<exists>packet q' m. mq_send_packet [] available (mq_send kind payload q) = Some (packet, q') \<and>
    length packet = length payload + 4 \<and> available < length packet \<and>
    m_kind m = kind \<and> m_data m = take (length payload mod 65536) payload \<and>
    messages_from_packet packet = m # messages_from_packet (drop (length payload mod 65536) payload)"
proof -
  let ?k = "length payload mod 65536"
  let ?m = "\<lparr>m_kind = kind, m_order = local_order_id q, m_size = word_of_nat (length payload), m_data = payload\<rparr>"
  let ?short = "?m\<lparr>m_data := take ?k payload\<rparr>"
  let ?q = "mq_send kind payload q"
  have inv: "send_wf q" "percent_quotas (mq_config q)" using queue_reachable_inv [OF assms(1)] by simp_all
  have size: "unat (word_of_nat (length payload) :: u16) = ?k" by (simp add: unat_of_nat)
  have "mq_config ?q = mq_config q" by (cases kind) (simp_all add: mq_send_def Let_def)
  then have fit: "quotas_fit available (mq_config ?q)" using inv(2) assms(7) by (simp add: percent_quotas_fit)
  from mq_send_packet_spec [OF fit, of "[]"] obtain ms iq rq oq where s:
    "mq_send_packet [] available ?q = Some (concat (map serialize ms), ?q\<lparr>i_queue := iq, r_queue := rq, o_queue := oq\<rparr>)"
    "emits (i_queue ?q, r_queue ?q, o_queue ?q, []) ms (iq, rq, oq, concat (map serialize ms))"
    "total_cost ms \<le> available" "blocked available (total_cost ms) iq" "blocked available (total_cost ms) rq"
    "blocked available (total_cost ms) oq"
    by auto
  have queues: "i_queue ?q = (if kind = Instant then [?m] else [])" "r_queue ?q = (if kind = Reliable then [?m] else [])"
    "o_queue ?q = (if kind = Ordered then [?m] else [])"
    using assms(2-4) by (cases kind; simp add: mq_send_def Let_def)+
  have "kinds_ok (i_queue ?q) (r_queue ?q) (o_queue ?q)" by (simp add: queues kinds_ok_def)
  note split = emits_by_kind [OF s(2) this, unfolded queues]
  have "ms = [?m]"
  proof (cases "ms = []")
    case True
    have "wire_cost ?m \<le> available" using assms(6) by (simp add: wire_cost_def size MESSAGE_HEADER_BYTES_def)
    with s(4-6) split show ?thesis by (cases kind) (simp_all add: True blocked_def)
  next
    case False
    then obtain m ms' where ms: "ms = m # ms'" by (cases ms) auto
    have "ms' = []" if "\<forall>x \<in> set ms'. m_kind x \<noteq> Instant \<and> m_kind x \<noteq> Reliable \<and> m_kind x \<noteq> Ordered"
      using that by (cases ms') (auto, metis message_kind.exhaust)
    with ms split show ?thesis by (cases kind; cases "m_kind m") (auto simp: filter_empty_conv split: if_splits)
  qed
  then have packet: "mq_send_packet [] available ?q =
      Some (serialize ?m, ?q\<lparr>i_queue := iq, r_queue := rq, o_queue := oq\<rparr>)"
    using s(1) by simp
  have "wf_message ?short"
    using inv(1) by (simp add: wf_message_def size send_wf_def)
  then have "messages_from_packet (serialize ?m) = ?short # messages_from_packet (drop ?k payload)"
    using parse_concat_serialize [of "[?short]" "drop ?k payload"]
    by (subst serialize_prefix [of _ _ _ _ ?k]) (simp add: messages_from_packet_parse)
  moreover have "length (serialize ?m) = length payload + 4" by simp
  ultimately show ?thesis
    using packet assms(5,7) by (intro exI [of _ "serialize ?m"] exI conjI) (rule packet, simp_all)
qed

theorem long_payload_breaks_packet_witness:
  "\<exists>packet q'. mq_send_packet [] 1386 (mq_send Instant (replicate 65536 0) (mq_new default_config)) = Some (packet, q') \<and>
     length packet = 65540"
proof -
  have "queue_reachable (mq_new default_config)" by (rule q_new) simp
  from long_payload_breaks_packet [OF this, of "replicate 65536 0" 1386 Instant] show ?thesis
    by (auto simp: mq_new_def)
qed

end
