(* ===== verification/Connection_Account.thy ===== *)
theory Connection_Account
  imports Connection_Plain Connection_Properties
begin

text \<open>
  The account of the reliable and the ordered messages of a connection over its whole life: each payload
  handed to \<open>send\<close> is queued, on its way in a packet that is pending, or acknowledged. The modifier is the
  no-op one; what another one does to lost packets is the subject of \<open>Connection_Loss\<close>.
\<close>

subsection \<open>Payloads queued, pending and acknowledged\<close>

fun queue_of :: "message_kind \<Rightarrow> message_queue \<Rightarrow> message list" where
  "queue_of Instant q = i_queue q"
| "queue_of Reliable q = r_queue q"
| "queue_of Ordered q = o_queue q"

definition queued :: "message_kind \<Rightarrow> message_queue \<Rightarrow> bytes multiset" where
  "queued k q = mset (map m_data (queue_of k q))"

definition carried :: "message_kind \<Rightarrow> bytes \<Rightarrow> bytes list" where
  "carried k payload = map m_data (of_kind k (messages_from_packet payload))"

definition carried_by :: "message_kind \<Rightarrow> sent_packet_ack list \<Rightarrow> bytes list" where
  "carried_by k ps = concat (map (\<lambda>p. carried k (drop PACKET_HEADER_SIZE (the (sp_packet p)))) ps)"

text \<open>What a received packet acknowledges, by its two ack fields.\<close>

definition acked_payloads :: "message_kind \<Rightarrow> bytes \<Rightarrow> ('r, 'm) connection \<Rightarrow> bytes list" where
  "acked_payloads k packet c = carried_by k (filter (is_acked (ack_of packet) (bitfield_of packet)) (sent_ack_queue c))"

lemma carried_by_filter:
  "mset (carried_by k ps) = mset (carried_by k (filter P ps)) + mset (carried_by k (filter (\<lambda>p. \<not> P p) ps))"
  by (induction ps) (simp_all add: carried_by_def)

lemma queued_lost:
  assumes "k \<noteq> Instant"
  shows "queued k (mq_lost_packet payload q) = mset (carried k payload) + queued k q"
  using assms by (cases k) (simp_all add: queued_def carried_def mq_lost_packet_queues messages_from_packet_parse rev_map)

lemma queued_fold_lost:
  assumes "k \<noteq> Instant"
  shows "queued k (fold mq_lost_packet payloads q) = mset (concat (map (carried k) payloads)) + queued k q"
  by (induction payloads arbitrary: q) (simp_all add: queued_lost [OF assms])

lemma queued_out_side: "out_side q' = out_side q \<Longrightarrow> queued k q' = queued k q"
  by (cases k) (simp_all add: queued_def out_side_def)

lemma queued_send:
  "queued k (mq_send kind payload q) = queued k q + (if kind = k then {#payload#} else {#})"
  by (cases k; cases kind) (simp_all add: queued_def mq_send_def Let_def)

subsection \<open>Every step keeps the account\<close>

definition accounted :: "message_kind \<Rightarrow> ('r, 'm) connection \<Rightarrow> bytes multiset" where
  "accounted k c = queued k (cn_queue c) + mset (carried_by k (sent_ack_queue c))"

lemma accounted_cong:
  "out_side (cn_queue c') = out_side (cn_queue c) \<Longrightarrow> sent_ack_queue c' = sent_ack_queue c \<Longrightarrow>
   accounted k c' = accounted k c"
  using queued_out_side [of "cn_queue c'" "cn_queue c" k] by (simp add: accounted_def)

lemma receive_keeps_account:
  assumes "conn_invar ok c" "k \<noteq> Instant" "receive_packet M packet clk c = Some (accepted, c', clk')"
  shows "accounted k c = accounted k c' + mset (if accepted then acked_payloads k packet c else [])"
proof (cases "length packet < PACKET_HEADER_SIZE \<or> \<not> fst (update_receive_state packet c)")
  case True
  obtain b c1 where u: "update_receive_state packet c = (b, c1)" by force
  have same: "accounted k c1 = accounted k c"
    using update_receive_state_fields [OF u] by (intro accounted_cong) simp_all
  show ?thesis
    by (rule receive_packet_rejected [OF True, of M clk]) (use assms(3) u same in auto)
next
  case False
  then have len: "PACKET_HEADER_SIZE \<le> length packet" and acc: "fst (update_receive_state packet c)" by simp_all
  obtain replacement modifier where
    m: "pm_incoming M (drop PACKET_HEADER_SIZE packet) (cn_modifier c) = (replacement, modifier)" by force
  let ?acked = "is_acked (ack_of packet) (bitfield_of packet)" and ?late = "timed_out (stamped packet clk c)"
  let ?ps = "sent_ack_queue c"
  show ?thesis
  proof (rule receive_packet_accepted [OF assms(1) len acc m refl, of clk], goal_cases)
    case (1 c2)
    have c2: "c2 = c'" "accepted" using 1(1) assms(3) by simp_all
    let ?lost = "lost_payloads (ack_of packet) (bitfield_of packet) (stamped packet clk c) ?ps"
    have "out_side (cn_queue c') = out_side (fold mq_lost_packet ?lost (cn_queue c))"
      unfolding c2(1) [symmetric] 1(2) by simp
    then have "queued k (cn_queue c') = mset (concat (map (carried k) ?lost)) + queued k (cn_queue c)"
      using queued_fold_lost [OF assms(2)] queued_out_side by metis
    also have "concat (map (carried k) ?lost) = carried_by k (filter (\<lambda>p. \<not> ?acked p \<and> ?late p) ?ps)"
      by (simp add: carried_by_def lost_payloads_def o_def)
    finally have q: "queued k (cn_queue c') =
        mset (carried_by k (filter (\<lambda>p. \<not> ?acked p \<and> ?late p) ?ps)) + queued k (cn_queue c)" .
    have "mset (carried_by k (filter (\<lambda>p. \<not> ?acked p) ?ps)) =
        mset (carried_by k (filter (\<lambda>p. \<not> ?acked p \<and> ?late p) ?ps)) +
        mset (carried_by k (filter (\<lambda>p. \<not> ?acked p \<and> \<not> ?late p) ?ps))"
      using carried_by_filter [of k "filter (\<lambda>p. \<not> ?acked p) ?ps" ?late] by (simp add: conj_commute)
    then show ?case
      using carried_by_filter [of k ?ps ?acked] c2(2)
      by (simp add: accounted_def acked_payloads_def q 1(4) [unfolded c2(1)])
  qed
qed

lemma write_keeps_queued:
  assumes "conn_invar ok c" "send_wf (cn_queue c)"
  obtains body queue where "write_packet c = Some (packet_header c @ body, queue)"
    "queued k (cn_queue c) = mset (carried k body) + queued k queue"
proof (cases "cn_state c = Closing")
  case True
  have none: "messages_from_packet [] = []" by (simp add: messages_from_packet_parse)
  obtain body queue where "write_packet c = Some (packet_header c @ body, queue)" "body = []" "queue = cn_queue c"
    by (rule write_packet_spec [OF assms(1)]) (use True in simp)
  with that show thesis by (simp add: carried_def none)
next
  case False
  show thesis
  proof (rule write_packet_messages [OF assms(1) False assms(2)], goal_cases)
    case (1 ms queue)
    have "queue_of k (cn_queue c) = of_kind k ms @ queue_of k queue"
      using 1(3-5) by (cases k) simp_all
    then show ?case by (intro that [OF 1(1)]) (simp add: queued_def carried_def 1(2))
  qed
qed

lemma transmit_keeps_account:
  fixes c :: "('r, noop_packet_modifier) connection"
  assumes "conn_invar ok c" "send_wf (cn_queue c)" "send_ack_required (local_seq_number c) c"
    and "transmit_packet noop_modifier S addr clk c s = Some (n, c', s', clk')"
  shows "accounted k c' = accounted k c"
proof (rule write_keeps_queued [OF assms(1,2), of k])
  fix body queue
  assume w: "write_packet c = Some (packet_header c @ body, queue)"
    and q: "queued k (cn_queue c) = mset (carried k body) + queued k queue"
  obtain result s1 where s: "sock_send_to S (packet_header c @ payload_after None body) addr s = (result, s1)" by force
  have same: "queued k (mq_dismiss queue) = queued k queue"
    by (rule queued_out_side) (simp add: mq_dismiss_def out_side_def)
  show ?thesis
  proof (rule transmit_packet_spec [OF assms(1) w noop_hooks(1) refl s, of clk], goal_cases)
    case (1 c2 clk2)
    have c2: "c2 = c'" using 1(1) assms(4) by simp
    from 1(6) assms(3) obtain time where "sent_ack_queue c' = sent_ack_queue c @
        [\<lparr>sp_seq = local_seq_number c, sp_time = time, sp_state = Unknown, sp_packet = Some (packet_header c @ body)\<rparr>]"
      unfolding c2 by auto
    with 1(2) show ?case by (simp add: accounted_def c2 q same carried_by_def PACKET_HEADER_SIZE_def)
  qed
qed

context rate_limiter_laws
begin

lemma send_keeps_account:
  fixes c :: "('r, noop_packet_modifier) connection"
  assumes "conn_invar invar c" "plain_ok c" "send_ack_required (local_seq_number c) c"
    and "send_packet R noop_modifier S addr clk c s = Some (n, c', s', clk')"
  shows "accounted k c' = accounted k c"
proof (rule send_packet_cases [OF assms(1), of clk noop_modifier S addr s])
  fix c1
  assume u: "update_send_state clk c = (False, c1, clock_skip 2 clk)"
    and "send_packet R noop_modifier S addr clk c s = Some (0, c1, s, clock_skip 2 clk)"
  with assms(4) have "c1 = c'" by simp
  with update_send_state_fields [OF u] show ?thesis by (intro accounted_cong) simp_all
next
  fix c1 limiter clk2
  assume u: "update_send_state clk c = (True, c1, clock_skip 2 clk)"
    and i: "conn_invar invar (limited c1 limiter)"
    and send: "send_packet R noop_modifier S addr clk c s =
       (if rl_should_send R limiter then transmit_packet noop_modifier S addr clk2 (limited c1 limiter) s
        else Some (0, limited c1 limiter, s, clk2))"
  let ?c = "limited c1 limiter"
  note same = update_send_state_fields [OF u] limited_fields [of c1 limiter]
  have "local_seq_number ?c = local_seq_number c" by (simp add: limited_def push_event_def same)
  moreover have "send_wf (cn_queue ?c)" using assms(2) by (simp add: plain_ok_def same)
  moreover have "accounted k ?c = accounted k c" by (intro accounted_cong) (simp_all add: same)
  moreover have "send_ack_required (local_seq_number ?c) ?c"
    using assms(3) calculation(1) by (simp add: send_ack_required_def same)
  moreover have "if rl_should_send R limiter then transmit_packet noop_modifier S addr clk2 ?c s = Some (n, c', s', clk')
      else ?c = c'"
    using send assms(4) by auto
  ultimately show ?thesis
    using transmit_keeps_account [OF i, of S addr clk2 s n c' s' clk' k] by (cases "rl_should_send R limiter") auto
qed

end

subsection \<open>Whole runs\<close>

text \<open>
  A connection used by an application, with the payloads of kind \<open>k\<close> it gave and those that were acknowledged.
  Payloads are below 64 KiB, and a packet is sent only when no older one with its sequence number is
  pending still.
\<close>

inductive message_run ::
  "'r rate_limiter \<Rightarrow> 's socket \<Rightarrow> (config \<Rightarrow> bool) \<Rightarrow> message_kind \<Rightarrow> bytes list \<Rightarrow> bytes list \<Rightarrow>
     ('r, noop_packet_modifier) connection \<Rightarrow> bool"
  for R :: "'r rate_limiter" and S :: "'s socket" and limiter_config :: "config \<Rightarrow> bool" and k :: message_kind
where
  mr_new:
    "valid_settings config \<Longrightarrow> limiter_config config \<Longrightarrow>
     message_run R S limiter_config k [] []
       (fst (connection_new config local_addr peer_addr (fst (rl_new R config clk)) modifier random clk'))"
| mr_receive:
    "message_run R S limiter_config k given acked c \<Longrightarrow>
     receive_packet noop_modifier packet clk c = Some (accepted, c', clk') \<Longrightarrow>
     message_run R S limiter_config k given (acked @ (if accepted then acked_payloads k packet c else [])) c'"
| mr_send_packet:
    "message_run R S limiter_config k given acked c \<Longrightarrow> send_ack_required (local_seq_number c) c \<Longrightarrow>
     send_packet R noop_modifier S addr clk c s = Some (n, c', s', clk') \<Longrightarrow>
     message_run R S limiter_config k given acked c'"
| mr_send:
    "message_run R S limiter_config k given acked c \<Longrightarrow> length payload < 65536 \<Longrightarrow>
     message_run R S limiter_config k (given @ (if kind = k then [payload] else [])) acked
       (connection_send kind payload c)"
| mr_events:
    "message_run R S limiter_config k given acked c \<Longrightarrow>
     message_run R S limiter_config k given acked (snd (connection_events c))"
| mr_config:
    "message_run R S limiter_config k given acked c \<Longrightarrow> valid_settings config \<Longrightarrow>
     message_run R S limiter_config k given acked (connection_set_config config c)"
| mr_peer:
    "message_run R S limiter_config k given acked c \<Longrightarrow>
     message_run R S limiter_config k given acked (set_peer_addr addr c)"
| mr_close:
    "message_run R S limiter_config k given acked c \<Longrightarrow>
     message_run R S limiter_config k given acked (connection_close c)"

lemma simple_ops_plain:
  assumes "plain_ok c"
  shows "plain_ok (connection_set_config config c)" "plain_ok (set_peer_addr addr c)" "plain_ok (connection_close c)"
  by (rule plain_ok_same [OF assms]; use assms in \<open>simp add: plain_ok_def send_wf_def mq_set_config_def
    connection_set_config_def set_peer_addr_def connection_close_def\<close>)+

lemma accounted_fields:
  assumes "i_queue (cn_queue c') = i_queue (cn_queue c)" "r_queue (cn_queue c') = r_queue (cn_queue c)"
    "o_queue (cn_queue c') = o_queue (cn_queue c)" "sent_ack_queue c' = sent_ack_queue c"
  shows "accounted k c' = accounted k c"
  using assms by (cases k) (simp_all add: accounted_def queued_def)

lemma simple_ops_account:
  "accounted k (snd (connection_events c)) = accounted k c"
  "accounted k (connection_set_config config c) = accounted k c"
  "accounted k (set_peer_addr addr c) = accounted k c" "accounted k (connection_close c) = accounted k c"
  by (rule accounted_fields; simp add: connection_events_def connection_set_config_def mq_set_config_def
      set_peer_addr_def connection_close_def split_beta)+

lemma connection_send_account:
  "accounted k (connection_send kind payload c) = accounted k c + (if kind = k then {#payload#} else {#})"
  by (simp add: accounted_def connection_send_def queued_send)

context rate_limiter_laws
begin

lemma message_run_plain:
  "message_run R S valid_config k given acked c \<Longrightarrow> conn_invar invar c \<and> plain_ok c"
proof (induction rule: message_run.induct)
  case (mr_new config local_addr peer_addr clk modifier random clk')
  then show ?case by (intro conjI conn_invar_new new_invar plain_ok_new)
next
  case (mr_receive given acked c packet clk accepted c' clk')
  have "conn_invar invar c'"
    by (rule receive_packet_invar [of invar c noop_modifier packet clk]) (use mr_receive in auto)
  with mr_receive show ?case by (auto dest: plain_ok_receive)
next
  case (mr_send_packet given acked c addr clk s n c' s' clk')
  have "conn_invar invar c'"
    by (rule send_packet_invar [of c noop_modifier S addr clk s]) (use mr_send_packet in auto)
  with mr_send_packet show ?case by (auto dest: plain_ok_send_packet)
qed (simp_all add: conn_invar_simple_ops conn_invar_set_config simple_ops_plain plain_ok_send plain_ok_events)

lemma message_run_account:
  assumes "k \<noteq> Instant"
  shows "message_run R S valid_config k given acked c \<Longrightarrow> mset given = accounted k c + mset acked"
proof (induction rule: message_run.induct)
  case (mr_new config local_addr peer_addr clk modifier random clk')
  show ?case by (cases k) (simp_all add: accounted_def queued_def carried_by_def connection_new_def mq_new_def)
next
  case (mr_receive given acked c packet clk accepted c' clk')
  then show ?case
    using receive_keeps_account [OF _ assms mr_receive(2), of invar] message_run_plain [OF mr_receive(1)]
    by (simp add: add.assoc)
next
  case (mr_send_packet given acked c addr clk s n c' s' clk')
  then show ?case
    using send_keeps_account message_run_plain [OF mr_send_packet(1)] by metis
qed (simp_all add: simple_ops_account connection_send_account)

end

lemmas binary_run_plain = binary.message_run_plain

text \<open>C5: No reliable and no ordered message is ever lost or doubled by the sending side. At any time of any run, whatever
  arrives and however sends fail, the payloads that were given to \<open>send\<close> are, counted with their
  multiplicity, those still queued, those in packets that are pending, and those in packets that the peer's ack
  fields acknowledged; a packet that times out puts its own back into the queue.\<close>

theorem messages_accounted_for:
  assumes "message_run binary_limiter S binary_valid k given acked c" "k \<noteq> Instant"
  shows "mset given = queued k (cn_queue c) + mset (carried_by k (sent_ack_queue c)) + mset acked"
  using binary.message_run_account [OF assms(2,1)] by (simp add: accounted_def)

text \<open>A new connection that sends one reliable message in one packet.\<close>

lemma fresh_run:
  "message_run binary_limiter S binary_valid k [] [] (fresh_connection default_config i)"
  using mr_new [of default_config binary_valid binary_limiter S k any_addr any_addr "\<lambda>_. 0" NoopPacketModifier i "\<lambda>_. 0"]
  by (simp add: fresh_connection_def binary_limiter_simps)

lemma one_message_run:
  "message_run binary_limiter S binary_valid Reliable [[8, 9]] []
     (connection_send Reliable [8, 9] (fresh_connection default_config 7))"
  using mr_send [OF fresh_run [of S Reliable 7], of "[8, 9]" Reliable] by simp

lemma one_message_sent:
  obtains n c s clk where
    "send_packet binary_limiter noop_modifier (udp_ops idle_os) any_addr (\<lambda>_. 0)
       (connection_send Reliable [8, 9] (fresh_connection default_config 7)) fresh_socket = Some (n, c, s, clk)"
    "message_run binary_limiter (udp_ops idle_os) binary_valid Reliable [[8, 9]] [] c"
proof -
  let ?c = "connection_send Reliable [8, 9] (fresh_connection default_config 7)"
  have "conn_invar binary_invar ?c" using binary_run_plain [OF one_message_run] by blast
  then obtain n c s clk where
    s: "send_packet binary_limiter noop_modifier (udp_ops idle_os) any_addr (\<lambda>_. 0) ?c fresh_socket = Some (n, c, s, clk)"
    by (rule binary_send_packet_invar)
  moreover have "send_ack_required (local_seq_number ?c) ?c"
    by (simp add: send_ack_required_def connection_send_def)
  ultimately show thesis using that mr_send_packet [OF one_message_run _ s] by blast
qed

theorem messages_accounted_for_witness:
  "\<exists>n c s clk. send_packet binary_limiter noop_modifier (udp_ops idle_os) any_addr (\<lambda>_. 0)
       (connection_send Reliable [8, 9] (fresh_connection default_config 7)) fresh_socket = Some (n, c, s, clk) \<and>
     queued Reliable (cn_queue c) + mset (carried_by Reliable (sent_ack_queue c)) = {#[8, 9]#}"
proof (rule one_message_sent)
  fix n c s clk
  assume s: "send_packet binary_limiter noop_modifier (udp_ops idle_os) any_addr (\<lambda>_. 0)
       (connection_send Reliable [8, 9] (fresh_connection default_config 7)) fresh_socket = Some (n, c, s, clk)"
    and "message_run binary_limiter (udp_ops idle_os) binary_valid Reliable [[8, 9]] [] c"
  from messages_accounted_for [OF this(2)] s show ?thesis by fastforce
qed

text \<open>C15: Messages stay well-formed on their way. Each waits in the queue of its own kind; its order id has
  12 bits and its size field is the length of its data, while queued and also when read back from a pending
  packet, as happens to it when the packet is lost.\<close>

theorem messages_stay_typed:
  assumes "message_run binary_limiter S binary_valid k given acked c"
  shows "(\<forall>kind m. m \<in> set (queue_of kind (cn_queue c)) \<longrightarrow>
      m_kind m = kind \<and> unat (m_order m) < 4096 \<and> unat (m_size m) = length (m_data m)) \<and>
    (\<forall>p m. p \<in> set (sent_ack_queue c) \<longrightarrow>
      m \<in> set (messages_from_packet (drop PACKET_HEADER_SIZE (the (sp_packet p)))) \<longrightarrow>
      unat (m_order m) < 4096 \<and> unat (m_size m) = length (m_data m))"
proof (intro conjI allI impI)
  note plain = binary_run_plain [OF assms]
  fix kind m
  assume "m \<in> set (queue_of kind (cn_queue c))"
  then have "m_kind m = kind \<and> wf_message m"
    using plain by (cases kind) (auto simp: plain_ok_def send_wf_def kinds_ok_def)
  then show "m_kind m = kind" "unat (m_order m) < 4096" "unat (m_size m) = length (m_data m)"
    by (simp_all add: wf_message_def)
next
  note plain = binary_run_plain [OF assms]
  fix p m
  assume p: "p \<in> set (sent_ack_queue c)"
    and m: "m \<in> set (messages_from_packet (drop PACKET_HEADER_SIZE (the (sp_packet p))))"
  from p plain obtain packet where "sp_packet p = Some packet" by (auto simp: conn_invar_def pending_ok_def)
  with p m plain have "wf_message m" unfolding plain_ok_def PACKET_HEADER_SIZE_def by auto
  then show "unat (m_order m) < 4096" "unat (m_size m) = length (m_data m)" by (simp_all add: wf_message_def)
qed

theorem messages_stay_typed_witness:
  "\<exists>n c s clk. send_packet binary_limiter noop_modifier (udp_ops idle_os) any_addr (\<lambda>_. 0)
       (connection_send Reliable [8, 9] (fresh_connection default_config 7)) fresh_socket = Some (n, c, s, clk) \<and>
     (\<forall>m. m \<in> set (r_queue (cn_queue c)) \<longrightarrow> unat (m_size m) = length (m_data m))"
proof (rule one_message_sent)
  fix n c s clk
  assume s: "send_packet binary_limiter noop_modifier (udp_ops idle_os) any_addr (\<lambda>_. 0)
       (connection_send Reliable [8, 9] (fresh_connection default_config 7)) fresh_socket = Some (n, c, s, clk)"
    and "message_run binary_limiter (udp_ops idle_os) binary_valid Reliable [[8, 9]] [] c"
  from messages_stay_typed [OF this(2)] have "m \<in> set (queue_of Reliable (cn_queue c)) \<Longrightarrow> unat (m_size m) = length (m_data m)" for m
    by blast
  with s show ?thesis by auto
qed

text \<open>What the account leaves out: a packet sent under a number that is still pending is not remembered, so the
  messages in it leave the account unacknowledged, and an ack of it counts for the older packet.\<close>

lemma reused_number_forgets:
  fixes c :: "('r, noop_packet_modifier) connection"
  assumes "conn_invar ok c" "send_wf (cn_queue c)" "\<not> send_ack_required (local_seq_number c) c"
    and "transmit_packet noop_modifier S addr clk c s = Some (n, c', s', clk')"
  shows "\<exists>body queue. write_packet c = Some (packet_header c @ body, queue) \<and> sent_ack_queue c' = sent_ack_queue c \<and>
    accounted k c = accounted k c' + mset (carried k body)"
proof (rule write_keeps_queued [OF assms(1,2), of k])
  fix body queue
  assume w: "write_packet c = Some (packet_header c @ body, queue)"
    and q: "queued k (cn_queue c) = mset (carried k body) + queued k queue"
  obtain result s1 where s: "sock_send_to S (packet_header c @ payload_after None body) addr s = (result, s1)" by force
  have "queued k (mq_dismiss queue) = queued k queue"
    by (rule queued_out_side) (simp add: mq_dismiss_def out_side_def)
  note same = this
  show ?thesis
  proof (rule transmit_packet_spec [OF assms(1) w noop_hooks(1) refl s, of clk], goal_cases)
    case (1 c2 clk2)
    have c2: "c2 = c'" using 1(1) assms(4) by simp
    from 1(6) assms(3) have pending: "sent_ack_queue c' = sent_ack_queue c" unfolding c2 by simp
    moreover have "cn_queue c' = mq_dismiss queue" using 1(2) unfolding c2 .
    ultimately show ?case using w q same by (auto simp: accounted_def)
  qed
qed

end
