(* ===== verification/Connection_Loss.thy ===== *)
theory Connection_Loss
  imports Connection_Properties
begin

text \<open>
  What becomes of the messages of a packet that is lost, over a whole connection. With a packet modifier
  that changes the payload they are not restored, for the connection keeps the changed payload and parses
  that.
\<close>

subsection \<open>Loss and packet modifiers\<close>

text \<open>C35: Reliability and packet modifiers do not go together. A connection remembers the payload of a packet as
  the modifier has changed it, and when the packet is lost it parses that, without undoing the change. What comes back
  into the queues of reliable and ordered messages are the messages that the changed payload happens to
  encode, in place of those of the packet.\<close>

theorem modified_packets_are_not_restored:
  assumes "conn_invar ok c" "sent_ack_queue c = []"
    and "write_packet c = Some (packet_header c @ body, queue)"
    and "pm_outgoing M body (cn_modifier c) = (Some changed, modifier)"
    and "transmit_packet M S addr clk c s = Some (n, c1, s1, clk1)"
    and "14 \<le> length packet" "fst (update_receive_state packet c1)"
    and "seq_was_acked (local_seq_number c) (ack_of packet) (bitfield_of packet) \<noteq> Some True"
    and "\<forall>p \<in> set (sent_ack_queue c1). clk2 0 - sp_time p > packet_drop_threshold (cn_config c)"
  shows "\<exists>c2 clk3. receive_packet M packet clk2 c1 = Some (True, c2, clk3) \<and> sent_ack_queue c2 = [] \<and>
    r_queue (cn_queue c2) = rev (of_kind Reliable (messages_from_packet changed)) @ r_queue queue \<and>
    o_queue (cn_queue c2) = rev (of_kind Ordered (messages_from_packet changed)) @ o_queue queue"
proof -
  obtain result s' where s: "sock_send_to S (packet_header c @ changed) addr s = (result, s')" by force
  have wire: "packet_header c @ changed = packet_header c @ payload_after (Some changed) body" by simp
  have required: "send_ack_required (local_seq_number c) c" using assms(2) by (simp add: send_ack_required_iff)
  obtain time where t: "sent_ack_queue c1 = [\<lparr>sp_seq = local_seq_number c, sp_time = time, sp_state = Unknown,
      sp_packet = Some (packet_header c @ changed)\<rparr>]"
    and q: "cn_queue c1 = mq_dismiss queue" "cn_config c1 = cn_config c"
  proof (rule transmit_packet_spec [OF assms(1,3,4) wire s, of clk], goal_cases)
    case (1 c' clk')
    then have c': "c' = c1" using assms(5) by simp
    have "cn_config c' = cn_config c" by (subst 1(8), simp)
    then show ?thesis using 1(3,7) required assms(2) that c' by auto
  qed
  have i: "conn_invar ok c1"
    by (rule transmit_packet_invar [OF assms(1), of M S addr clk s]) (use assms(5) in simp)
  have long: "PACKET_HEADER_SIZE \<le> length packet" using assms(6) by (simp add: PACKET_HEADER_SIZE_def)
  obtain replacement modifier' where
    m: "pm_incoming M (drop PACKET_HEADER_SIZE packet) (cn_modifier c1) = (replacement, modifier')" by force
  let ?p = "\<lparr>sp_seq = local_seq_number c, sp_time = time, sp_state = Unknown, sp_packet = Some (packet_header c @ changed)\<rparr>"
  obtain b c0 where u: "update_receive_state packet c1 = (b, c0)" by force
  have lost: "\<not> is_acked (ack_of packet) (bitfield_of packet) ?p" "timed_out (stamped packet clk2 c1) ?p"
    using assms(8,9) t q(2) update_receive_state_fields(1) [OF u]
    by (simp_all add: is_acked_def timed_out_def stamped_def u)
  then have "lost_payloads (ack_of packet) (bitfield_of packet) (stamped packet clk2 c1) (sent_ack_queue c1) = [changed]"
    by (simp add: lost_payloads_def t PACKET_HEADER_SIZE_def)
  then show ?thesis
  proof (rule receive_packet_accepted [OF i long assms(7) m sym], goal_cases)
    case (1 c2)
    have "out_side (cn_queue c2) = out_side (mq_lost_packet changed (mq_dismiss queue))"
      by (simp add: 1(2) q(1))
    with 1(1,4) lost show ?case
      by (auto simp: t out_side_def mq_lost_packet_queues messages_from_packet_parse mq_dismiss_def)
  qed
qed

text \<open>A modifier that complements every byte, on the way out and on the way in.\<close>

definition complement :: "bytes \<Rightarrow> noop_packet_modifier \<Rightarrow> bytes option \<times> noop_packet_modifier" where
  "complement payload m = (Some (map (\<lambda>b. 255 - b) payload), m)"

definition complement_modifier :: "noop_packet_modifier packet_modifier" where
  "complement_modifier = \<lparr>pm_new = noop_new, pm_outgoing = complement, pm_incoming = complement\<rparr>"

interpretation complement: inverse_modifier complement_modifier "\<lambda>_ _. True"
  by unfold_locales (auto simp: complement_modifier_def complement_def o_def)

text \<open>The one reliable message of a connection with this modifier is gone after its packet was lost.\<close>

definition one_pending :: "(binary_rate_limiter, noop_packet_modifier) connection" where
  "one_pending = (established 0 [])\<lparr>local_seq_number := 5, cn_queue := one_reliable [8, 9]\<rparr>"

lemma one_pending_fields [simp]:
  "cn_state one_pending = Connected" "cn_config one_pending = default_config" "remote_seq_number one_pending = 0"
  "local_seq_number one_pending = 5" "recv_ack_queue one_pending = []" "sent_ack_queue one_pending = []"
  "cn_queue one_pending = one_reliable [8, 9]"
  by (simp_all add: one_pending_def)

lemma one_pending_invar: "conn_invar (\<lambda>_. True) one_pending"
  using established_invar [of 0 "[]"] by (simp add: conn_invar_def one_reliable_def mq_send_def mq_new_def)

lemma one_pending_packet:
  "write_packet one_pending = Some (packet_header one_pending @ [1, 0, 0, 2, 8, 9], mq_new default_config)"
  by (simp add: write_packet_def packet_header_def PACKET_HEADER_SIZE_def queue_eval one_reliable_def serialize_def
      message_header_def header_byte0_def header_def header_seq_def header_ack_def header_bitfield_def)

theorem modified_packets_are_not_restored_witness:
  "\<exists>n c1 s1 clk1 c2 clk3.
     transmit_packet complement_modifier (udp_ops idle_os) any_addr (\<lambda>_. 0) one_pending fresh_socket =
       Some (n, c1, s1, clk1) \<and>
     receive_packet complement_modifier [1, 2, 3, 4, 0, 0, 0, 7, 1, 0, 0, 0, 0, 0] (\<lambda>_. 2000000000) c1 =
       Some (True, c2, clk3) \<and> sent_ack_queue c2 = [] \<and> r_queue (cn_queue c2) = []"
proof -
  let ?packet = "[1, 2, 3, 4, 0, 0, 0, 7, 1, 0, 0, 0, 0, 0] :: bytes"
  have m: "pm_outgoing complement_modifier [1, 0, 0, 2, 8, 9] (cn_modifier one_pending) =
      (Some [254, 255, 255, 253, 247, 246], cn_modifier one_pending)"
    by (simp add: complement_modifier_def complement_def)
  define c1 where "c1 = one_pending\<lparr>cn_queue := mq_dismiss (mq_new default_config), last_send_time := 0,
    sent_ack_queue := [\<lparr>sp_seq = 5, sp_time = 0, sp_state = Unknown,
      sp_packet = Some (packet_header one_pending @ [254, 255, 255, 253, 247, 246])\<rparr>],
    local_seq_number := 6, sent_packets := sent_packets one_pending + 1\<rparr>"
  have "\<exists>n s1 clk1. transmit_packet complement_modifier (udp_ops idle_os) any_addr (\<lambda>_. 0) one_pending fresh_socket =
      Some (n, c1, s1, clk1)"
    by (simp add: transmit_packet_def one_pending_packet m slice_from_def PACKET_HEADER_SIZE_def checked_add_u32_def
        send_ack_required_def udp_ops_def udp_send_to_def net_send_to_def fresh_socket_def Let_def c1_def
        clock_skip_def MAX_SEQ_NUMBER_def)
  then obtain n s1 clk1 where
    t: "transmit_packet complement_modifier (udp_ops idle_os) any_addr (\<lambda>_. 0) one_pending fresh_socket =
      Some (n, c1, s1, clk1)" by blast
  have u: "fst (update_receive_state ?packet c1)"
    by (simp add: c1_def update_receive_state_def CLOSURE_PACKET_DATA_def seq_is_more_recent_def MAX_SEQ_NUMBER_def)
  have "seq_was_acked 5 0 0 = Some False"
    by (simp add: seq_was_acked_def seq_bit_index_def checked_sub_u32_def checked_add_u32_def MAX_SEQ_NUMBER_def
        MAX_ACK_BITS_def)
  then have "\<exists>c2 clk3. receive_packet complement_modifier ?packet (\<lambda>_. 2000000000) c1 = Some (True, c2, clk3) \<and>
      sent_ack_queue c2 = [] \<and>
      r_queue (cn_queue c2) = rev (of_kind Reliable (messages_from_packet [254, 255, 255, 253, 247, 246])) @
        r_queue (mq_new default_config) \<and>
      o_queue (cn_queue c2) = rev (of_kind Ordered (messages_from_packet [254, 255, 255, 253, 247, 246])) @
        o_queue (mq_new default_config)"
    by (intro modified_packets_are_not_restored [OF one_pending_invar _ one_pending_packet m t _ u])
      (simp_all add: c1_def ack_of_def bitfield_of_def u32_of_bytes_def)
  then show ?thesis using t
    by (auto simp: messages_from_packet_parse mq_new_def kind_of_nibble_def header_size_def)
qed

end
