(* ===== verification/Spec2Isabelle.thy ===== *)
theory Spec2Isabelle
  imports Example_Client Example_Server Queue_Limits Connection_Account Connection_Loss
begin

text \<open>
  Verification of cobalt, a low latency UDP networking library in Rust: a virtual connection with
  acknowledgments and loss detection over a packet, three kinds of messages inside the packets, a client
  with one connection and a server with many. Paths are relative to \<open>src/src/\<close>.

  \<^bold>\<open>The program and its model.\<close> A client or server runs a loop: receive packets from a socket, hand events
  to the application, send one packet per connection, sleep for the rest of the tick. The theories, from the
  bottom:

  \<^item> \<open>Prelude\<close>: machine integers, arithmetic that panics on overflow, the clock, big-endian bytes.
    \<open>F32\<close>: 32 bit floats as exact rationals with one rounding per operation, infinities and \<open>NaN\<close>.
    \<open>Serial\<close>: the contract of the two "is more recent" tests on wrapping counters, a locale.
  \<^item> \<open>Config\<close>: \<open>shared/config.rs\<close>.
  \<^item> \<open>Message\<close>, \<open>Min_Heap\<close>, \<open>Message_Queue\<close>: \<open>shared/message_queue.rs\<close>. Message kinds, header and parsing; the
    heap of early messages; the queue with \<open>send\<close>, \<open>send_packet\<close>, \<open>receive_packet\<close>, \<open>lost_packet\<close>. \<open>Queue_Sending\<close>,
    \<open>Queue_Receiving\<close> and \<open>Queue_Session\<close> prove what they do, the last over a network that loses, repeats and
    reorders packets; \<open>Queue_Properties\<close> states it, and \<open>Queue_Limits\<close> what becomes of payloads that are too long.
  \<^item> \<open>Rate_Limiter\<close>: the trait \<open>traits/rate_limiter.rs\<close> as a record of operations and a locale of laws, and
    \<open>shared/binary_rate_limiter.rs\<close> as an interpretation of it.
  \<^item> \<open>Packet_Modifier\<close>: \<open>traits/packet_modifier.rs\<close> and \<open>shared/noop_packet_modifier.rs\<close>, likewise.
  \<^item> \<open>Socket\<close>: \<open>traits/socket.rs\<close> and \<open>shared/udp_socket.rs\<close>, likewise, and the receive loop of client and server. What
    the calls of a socket find is an infinite stream of datagrams and errors, so a socket need not run dry; \<open>bind\<close>,
    \<open>set_nonblocking\<close> and \<open>local_addr\<close> are answered by the operating system (\<open>os_calls\<close>, \<open>ns_addr\<close>) and may fail.
  \<^item> \<open>Stats\<close>: \<open>shared/stats.rs\<close>. \<open>Ticker\<close>: \<open>shared/ticker.rs\<close>.
  \<^item> \<open>Connection\<close>: \<open>shared/connection.rs\<close>, the record \<open>connection\<close> with one function per method; a long method is
    cut where its parts are (\<open>receive_packet\<close> with \<open>update_receive_state\<close> and \<open>process_acks\<close>; \<open>send_packet\<close> with
    \<open>update_send_state\<close>, \<open>write_packet\<close> and \<open>transmit_packet\<close>).
  \<^item> \<open>Client\<close>: \<open>client.rs\<close>. \<open>Server\<close>: \<open>server.rs\<close>.
  \<^item> \<open>Example_Client\<close>, \<open>Example_Server\<close>: the two programs of \<open>../examples/\<close>, on UDP with the binary limiter and
    the no-op modifier: \<open>client_handle\<close> is the \<open>match\<close> on an event, \<open>client_events\<close> the inner loop, \<open>client_pass\<close> a pass
    of the main loop, \<open>client_program\<close> the whole program, and likewise for the server.

  A method that panics or does not end has an \<open>option\<close> result, a \<open>Result\<close> is a sum, an out-parameter is part
  of the result. Types that are parameters of the source, the limiter, the modifier and the socket, are
  records of operations passed as arguments. What the program does not control is an argument too: the readings of
  the clock, the random connection id, the answer of name resolution, the iteration order of a hash map, the
  datagrams that arrive and the sends that fail, and what a caller does with a mutable reference it is
  lent.

  \<^bold>\<open>What is shown.\<close>

  \<^item> Messages (\<open>Queue_Properties\<close>): ordered delivery end to end, for sessions of at most 2047 ordered messages; sending conserves messages, fills the packet
    and stays in its budget; a lost packet restores them; parsing any bytes ends; the buffer of early
    messages is bounded. A queue is \<open>queue_reachable\<close> when quotas add up to at most 100 percent; the ordered
    stream is proved for up to 2047 messages, half the 12 bit space less one, for beyond it the heap stalls,
    which is proved too.
  \<^item> Connections (\<open>Connection_Acks\<close>, \<open>Connection_Invariant\<close>, \<open>Connection_States\<close>, \<open>Connection_Delivery\<close>,
    \<open>Connection_Properties\<close>): which packets the ack fields acknowledge, exactly; the state invariant and that nothing panics; the account of
    a received packet; the refinement of the connection's life to an automaton over its events and the calls of \<open>close\<close> and \<open>reset\<close>; old packets
    are dropped; over a whole run every reliable and ordered message is queued, pending or acknowledged and stays
    well-formed (\<open>Connection_Account\<close>, payloads below 64 KiB, and no number in use twice); deadlines end a connection; a packet delivers the messages it carries, through any modifier whose
    incoming hook undoes the outgoing one. The settings
    assumed (\<open>valid_settings\<close>) are quotas of at most 100 percent, a positive send rate and a packet size between 14 bytes
    and 4 MiB, below which the float budget is exact enough; the default satisfies them.
  \<^item> Limiter, ticker, statistics: no starvation and bounds; exact time accounting; averages are sliding
    windows, as long as a window is below 4 GiB.
  \<^item> Client and server (\<open>Client_Properties\<close>, \<open>Server_Properties\<close>): consistency of their parts in every reachable
    state; foreign packets are ignored by a client, and isolated to one connection by a server; the receive
    loop ends; ended connections are removed after two sends.
  \<^item> Whole programs (\<open>Connection_Plain\<close>, \<open>Udp_Rounds\<close>, \<open>Client_Ticks\<close>, \<open>Server_Ticks\<close>, \<open>Example_Client\<close>,
    \<open>Example_Server\<close>): once they have their sockets, the example client and server return from any number of passes of their main loops,
    whatever arrives, the server provided no datagram is too short; the number of passes is a bound that
    every theorem has for all values, so that nothing depends on it. The assumptions are that every burst of arrivals ends, and bound the bytes of a
    burst, that is between two "would block" answers of the socket, and of a packet, by a \<open>b\<close>
    with \<open>b * (send_rate + 1) < 2 ^ 32\<close>, 138 million at the default rate. A client without an answer runs for ever.
  \<^item> Where the code does not do what it or its documentation says, the behaviour itself is proved: the
    theorems on wrap-around in the heap, messages that are not restored when a modifier changed their packet (\<open>Connection_Loss\<close>), payloads longer than a packet or than 16 bits can count, unreceived packets that count as acknowledged, data taken for a
    closure packet, short packets that stop a server, events that survive a reset, closing that never ends,
    quotas and recovery rates out of range, configuration changes, ticks without a \<open>receive\<close>, and a failed
    attempt to connect that the example client ignores.

  Loops are total functions with a measure, except \<open>recv_loop\<close>, which a socket that finds a datagram at every call
  keeps going for ever (\<open>endless_arrivals\<close>): it is a partial function, total under the laws of \<open>socket_laws\<close> when the
  burst ends, and these hold of \<open>UdpSocket\<close>; and the event loops of
  the examples, partial functions that the theorems prove to return. No fuel is used.

  \<^bold>\<open>Not modelled.\<close> \<open>Debug\<close> output, the format of what the examples print, module files and re-exports (\<open>lib.rs\<close>, \<open>mod.rs\<close>) and the tests. Overflow of
  64 bit counts of bytes and nanoseconds. The application may break a client or server through the references it is
  lent (\<open>Server::connections\<close> lends the whole map, \<open>Connection::set_id\<close> changes the id under its key); the
  reachable states are those of uses that keep a connection's invariant and peer (\<open>fair_use\<close>, \<open>quiet_use\<close>).
\<close>

end
